theory Spec2Isabelle
  imports Complex_Main "HOL-Library.Log_Nat"
begin

section \<open>JavaScript values\<close>

subsection \<open>Strings\<close>

text \<open>
  JavaScript strings are modelled as \<^typ>\<open>string\<close>. \<open>String.prototype.startsWith\<close>,
  \<open>String.prototype.includes\<close>, \<open>toLowerCase\<close> and \<open>toUpperCase\<close> (on ASCII letters)
  are written out as executable functions.
\<close>

definition startsWith :: "string \<Rightarrow> string \<Rightarrow> bool" where
  "startsWith s p = (take (length p) s = p)"

fun includes_str :: "string \<Rightarrow> string \<Rightarrow> bool" where
  "includes_str [] d = (d = [])"
| "includes_str (c # cs) d = (startsWith (c # cs) d \<or> includes_str cs d)"

definition lowerChar :: "char \<Rightarrow> char" where
  "lowerChar c =
     (case map_of (zip ''ABCDEFGHIJKLMNOPQRSTUVWXYZ'' ''abcdefghijklmnopqrstuvwxyz'') c of
        Some l \<Rightarrow> l
      | None \<Rightarrow> c)"

definition toLowerCase :: "string \<Rightarrow> string" where
  "toLowerCase s = map lowerChar s"

definition upperChar :: "char \<Rightarrow> char" where
  "upperChar c =
     (case map_of (zip ''abcdefghijklmnopqrstuvwxyz'' ''ABCDEFGHIJKLMNOPQRSTUVWXYZ'') c of
        Some u \<Rightarrow> u
      | None \<Rightarrow> c)"

definition toUpperCase :: "string \<Rightarrow> string" where
  "toUpperCase s = map upperChar s"

definition digitChar :: "nat \<Rightarrow> char" where
  "digitChar n = ''0123456789'' ! (n mod 10)"

definition digitVal :: "char \<Rightarrow> nat option" where
  "digitVal c = map_of (zip ''0123456789'' [0, 1, 2, 3, 4, 5, 6, 7, 8, 9]) c"

text \<open>Decimal text of a non-negative integer, as \<open>Number.prototype.toString\<close> gives it.\<close>

fun showDigits :: "nat \<Rightarrow> nat \<Rightarrow> string" where
  "showDigits 0 n = []"
| "showDigits (Suc fuel) n =
     (if n < 10 then [digitChar n] else showDigits fuel (n div 10) @ [digitChar (n mod 10)])"

definition showNat :: "nat \<Rightarrow> string" where
  "showNat n = showDigits (Suc n) n"

subsection \<open>Numbers\<close>

text \<open>
  A JavaScript number is a finite value, \<open>NaN\<close> or one of the two infinities. Finite
  values are kept as exact rationals. The operations \<open>num_add\<close>, \<open>num_sub\<close> and \<open>num_div\<close>
  compute exactly: they are used where the rounding of IEEE doubles changes at most the
  last bit of a delay or a duration. Where rounding decides the result, in the target
  time of a seek, the sum is rounded as the double format does (\<open>double_add\<close> below).
  The sign of zero is not part of the model.
\<close>

datatype number = Num rat | NaN | PosInfinity | NegInfinity

fun num_add :: "number \<Rightarrow> number \<Rightarrow> number" where
  "num_add (Num a) (Num b) = Num (a + b)"
| "num_add NaN _ = NaN"
| "num_add _ NaN = NaN"
| "num_add PosInfinity NegInfinity = NaN"
| "num_add NegInfinity PosInfinity = NaN"
| "num_add PosInfinity _ = PosInfinity"
| "num_add NegInfinity _ = NegInfinity"
| "num_add (Num a) PosInfinity = PosInfinity"
| "num_add (Num a) NegInfinity = NegInfinity"

fun num_neg :: "number \<Rightarrow> number" where
  "num_neg (Num a) = Num (- a)"
| "num_neg NaN = NaN"
| "num_neg PosInfinity = NegInfinity"
| "num_neg NegInfinity = PosInfinity"

definition num_sub :: "number \<Rightarrow> number \<Rightarrow> number" where
  "num_sub a b = num_add a (num_neg b)"

fun num_div :: "number \<Rightarrow> number \<Rightarrow> number" where
  "num_div (Num a) (Num b) =
     (if b \<noteq> 0 then Num (a / b)
      else if a = 0 then NaN
      else if 0 < a then PosInfinity else NegInfinity)"
| "num_div NaN _ = NaN"
| "num_div _ NaN = NaN"
| "num_div (Num a) PosInfinity = Num 0"
| "num_div (Num a) NegInfinity = Num 0"
| "num_div PosInfinity (Num b) = (if 0 \<le> b then PosInfinity else NegInfinity)"
| "num_div NegInfinity (Num b) = (if 0 \<le> b then NegInfinity else PosInfinity)"
| "num_div PosInfinity _ = NaN"
| "num_div NegInfinity _ = NaN"

fun num_le :: "number \<Rightarrow> number \<Rightarrow> bool" where
  "num_le (Num a) (Num b) = (a \<le> b)"
| "num_le NaN _ = False"
| "num_le _ NaN = False"
| "num_le NegInfinity _ = True"
| "num_le _ PosInfinity = True"
| "num_le PosInfinity _ = False"
| "num_le (Num a) NegInfinity = False"

text \<open>
  Rounding to the double format: to the nearest value with a significand of 53 bits
  and an exponent of at least \<open>-1074\<close> for its last bit, ties to the even significand,
  and to an infinity from \<open>2 ^ 1024\<close> on. \<open>floorLog2 x\<close> is the integer \<open>k\<close> with
  \<open>2 ^ k \<le> x < 2 ^ (k + 1)\<close>, for \<open>x > 0\<close>.
\<close>

definition pow2 :: "int \<Rightarrow> rat" where
  "pow2 k = (if 0 \<le> k then 2 ^ nat k else 1 / 2 ^ nat (- k))"

definition floorLog2 :: "rat \<Rightarrow> int" where
  "floorLog2 x = (if 1 \<le> x then bitlen \<lfloor>x\<rfloor> - 1 else - bitlen (\<lceil>1 / x\<rceil> - 1))"

definition roundHalfEven :: "rat \<Rightarrow> int" where
  "roundHalfEven q =
     (let f = \<lfloor>q\<rfloor>; d = q - of_int f
      in if d < 1 / 2 then f
         else if 1 / 2 < d then f + 1
         else if even f then f else f + 1)"

definition roundDouble :: "rat \<Rightarrow> number" where
  "roundDouble x =
     (if x = 0 then Num 0
      else
        (let e = max (floorLog2 \<bar>x\<bar> - 52) (- 1074);
             r = of_int (roundHalfEven (\<bar>x\<bar> / pow2 e)) * pow2 e
         in if pow2 1024 \<le> r then (if 0 < x then PosInfinity else NegInfinity)
            else Num (if 0 < x then r else - r)))"

text \<open>The sum of two doubles, as \<open>+\<close> computes it.\<close>

fun double_add :: "number \<Rightarrow> number \<Rightarrow> number" where
  "double_add (Num a) (Num b) = roundDouble (a + b)"
| "double_add a b = num_add a b"

text \<open>\<open>x > 0\<close> on numbers.\<close>

fun num_positive :: "number \<Rightarrow> bool" where
  "num_positive (Num a) = (0 < a)"
| "num_positive PosInfinity = True"
| "num_positive NaN = False"
| "num_positive NegInfinity = False"

subsection \<open>Dates\<close>

text \<open>
  A \<open>Date\<close> object holds a time value in milliseconds since the epoch, or is an
  ``Invalid Date'', whose \<open>getTime()\<close> is \<open>NaN\<close>.
\<close>

datatype Date = Date int | InvalidDate

fun getTime :: "Date \<Rightarrow> number" where
  "getTime (Date t) = Num (of_int t)"
| "getTime InvalidDate = NaN"

section \<open>Data model (types/events)\<close>

datatype EventType =
  MOUSE_MOVE | MOUSE_CLICK | MOUSE_SCROLL | KEY_PRESS | KEY_DOWN | KEY_UP
  | NAVIGATION | RESIZE | CUSTOM

record ElementInfo =
  info_tagName :: string
  info_id :: "string option"
  info_className :: "string option"
  info_path :: "string option"

record MouseEventData =
  mouse_x :: int
  mouse_y :: int
  mouse_target :: "ElementInfo option"
  button :: "int option"
  scrollDelta :: "(int \<times> int) option"

record Modifiers =
  ctrl :: bool
  alt :: bool
  shift :: bool
  meta :: bool

record KeyboardEventData =
  key :: string
  keyCode :: int
  modifiers :: Modifiers
  key_target :: "ElementInfo option"

record NavigationEventData =
  nav_from :: string
  nav_to :: string
  nav_title :: "string option"

datatype EventData =
  MouseData MouseEventData
  | KeyboardData KeyboardEventData
  | NavigationData NavigationEventData
  | CustomData string

text \<open>
  A session and its events, with the representation of time values left open: a
  \<^typ>\<open>Date\<close> in memory, the JSON value of a date on the wire.
\<close>

record 't SessionEvent =
  timestamp :: 't
  etype :: EventType
  data :: EventData

record 't RecordingSession =
  session_id :: string
  startTime :: 't
  endTime :: 't
  events :: "'t SessionEvent list"

section \<open>Capture: EventCollector and EventHandler\<close>

text \<open>
  The target element of a raw input signal. Selector matching is the browser's:
  \<open>rejectedSelectors\<close> lists the selectors the browser's parser rejects, on which
  \<open>element.matches(s)\<close> throws a \<open>SyntaxError\<close>; \<open>matchedSelectors\<close> lists the selectors
  \<open>s\<close> for which \<open>element.matches(s)\<close> holds or \<open>element.closest(s)\<close> is not null;
  \<open>cssPath\<close> is the result of the collector's walk up the ancestors (\<open>getElementPath\<close>).
  \<open>tagName\<close> is as the DOM gives it: upper case for an element of an HTML document,
  as written in the source for one of an XML (XHTML) document.
\<close>

record Element =
  tagName :: string
  element_id :: string
  className :: string
  inputType :: string
  cssPath :: string
  matchedSelectors :: "string list"
  rejectedSelectors :: "string list"

text \<open>
  The collector. \<open>throttleTimers\<close> maps an event type to the time at which its pending
  timer fires and deletes the entry; the browser clock is explicit (milliseconds).
\<close>

record EventCollector =
  excludeElements :: "string list"
  throttleTimers :: "string \<rightharpoonup> int"

datatype js_error = TypeError | SyntaxError | QuotaExceededError

text \<open>
  \<open>excludeElements.some(selector => element.matches(selector) || ...)\<close>: the selectors
  are tried in order, the first that matches ends the search, and one the browser
  rejects throws; nothing in the collector or the handlers catches it.
\<close>

fun someSelectorMatches :: "Element \<Rightarrow> string list \<Rightarrow> js_error + bool" where
  "someSelectorMatches element [] = Inr False"
| "someSelectorMatches element (selector # rest) =
     (if selector \<in> set (rejectedSelectors element) then Inl SyntaxError
      else if selector \<in> set (matchedSelectors element) then Inr True
      else someSelectorMatches element rest)"

definition shouldExcludeElement :: "EventCollector \<Rightarrow> Element \<Rightarrow> js_error + bool" where
  "shouldExcludeElement c element = someSelectorMatches element (excludeElements c)"

definition orUndefined :: "string \<Rightarrow> string option" where
  "orUndefined s = (if s = [] then None else Some s)"

definition getElementInfo :: "Element \<Rightarrow> ElementInfo" where
  "getElementInfo element =
     \<lparr> info_tagName = toLowerCase (tagName element),
       info_id = orUndefined (element_id element),
       info_className = orUndefined (className element),
       info_path = orUndefined (cssPath element) \<rparr>"

text \<open>
  \<open>throttle(eventType, duration)\<close> at browser time \<open>now\<close>: refused while a timer for the
  type is pending, otherwise a timer is set that fires \<open>duration\<close> later. \<open>setTimeout\<close>
  treats a negative duration as 0.
\<close>

definition throttle :: "string \<Rightarrow> int \<Rightarrow> int \<Rightarrow> EventCollector \<Rightarrow> bool \<times> EventCollector" where
  "throttle eventType duration now c =
     (if throttleTimers c eventType \<noteq> None then (False, c)
      else (True, c\<lparr>throttleTimers := (throttleTimers c)(eventType \<mapsto> now + max 0 duration)\<rparr>))"

text \<open>The timer callbacks that are due at \<open>now\<close> run and delete their entries.\<close>

definition fireThrottleTimers :: "int \<Rightarrow> EventCollector \<Rightarrow> EventCollector" where
  "fireThrottleTimers now c =
     c\<lparr>throttleTimers :=
         (\<lambda>k. case throttleTimers c k of
                 None \<Rightarrow> None
               | Some due \<Rightarrow> if due \<le> now then None else Some due)\<rparr>"

record EventHandlerOptions =
  captureMouseMove :: bool
  throttleMouseMove :: int

record MouseEvent =
  clientX :: int
  clientY :: int
  mouse_event_target :: "Element option"

record KeyboardEvent =
  event_key :: string
  event_keyCode :: int
  ctrlKey :: bool
  altKey :: bool
  shiftKey :: bool
  metaKey :: bool
  key_event_target :: "Element option"

type_synonym emitted = "(EventType \<times> EventData) option"

text \<open>
  A handler returns what it hands to the callback, or the error it throws. The
  collector is returned as well: a window opened by \<open>throttle\<close> stays open when the
  handler throws afterwards.
\<close>

definition handleMouseMove ::
  "EventHandlerOptions \<Rightarrow> int \<Rightarrow> MouseEvent \<Rightarrow> EventCollector
     \<Rightarrow> (js_error + emitted) \<times> EventCollector" where
  "handleMouseMove opts now e c =
     (case throttle ''mousemove'' (throttleMouseMove opts) now c of
        (False, c') \<Rightarrow> (Inr None, c')
      | (True, c') \<Rightarrow>
          (case mouse_event_target e of
             Some target \<Rightarrow>
               (case shouldExcludeElement c' target of
                  Inl err \<Rightarrow> (Inl err, c')
                | Inr True \<Rightarrow> (Inr None, c')
                | Inr False \<Rightarrow>
                    (Inr (Some (MOUSE_MOVE,
                       MouseData \<lparr> mouse_x = clientX e, mouse_y = clientY e,
                                   mouse_target = Some (getElementInfo target),
                                   button = None, scrollDelta = None \<rparr>)), c'))
           | None \<Rightarrow>
               (Inr (Some (MOUSE_MOVE,
                  MouseData \<lparr> mouse_x = clientX e, mouse_y = clientY e,
                              mouse_target = None, button = None, scrollDelta = None \<rparr>)), c')))"


text \<open>
  \<open>handleKeyDown\<close>. With a null target the exclusion test is skipped and reading
  \<open>target.tagName\<close> throws. The test of the tag name is the source's \<open>===\<close> against
  \<open>"INPUT"\<close>, which is sensitive to case.
\<close>

definition handleKeyDown :: "EventCollector \<Rightarrow> KeyboardEvent \<Rightarrow> js_error + emitted" where
  "handleKeyDown c e =
     (case key_event_target e of
        None \<Rightarrow> Inl TypeError
      | Some target \<Rightarrow>
          (case shouldExcludeElement c target of
             Inl err \<Rightarrow> Inl err
           | Inr True \<Rightarrow> Inr None
           | Inr False \<Rightarrow>
               if tagName target = ''INPUT'' \<and> inputType target = ''password'' then
                 Inr (Some (KEY_DOWN,
                   KeyboardData \<lparr> key = ''*'', keyCode = 0,
                     modifiers = \<lparr> ctrl = ctrlKey e, alt = altKey e, shift = shiftKey e,
                                   meta = metaKey e \<rparr>,
                     key_target = Some (getElementInfo target) \<rparr>))
               else
                 Inr (Some (KEY_DOWN,
                   KeyboardData \<lparr> key = event_key e, keyCode = event_keyCode e,
                     modifiers = \<lparr> ctrl = ctrlKey e, alt = altKey e, shift = shiftKey e,
                                   meta = metaKey e \<rparr>,
                     key_target = Some (getElementInfo target) \<rparr>))))"

text \<open>
  The recorder's \<open>recordEvent\<close>, the callback of every handler: outside a recording it
  does nothing, otherwise it appends the event stamped with the current time.
\<close>

record SessionRecorder =
  isRecording :: bool
  currentSession :: "Date RecordingSession option"

definition recordEvent :: "Date \<Rightarrow> EventType \<Rightarrow> EventData \<Rightarrow> SessionRecorder \<Rightarrow> SessionRecorder" where
  "recordEvent now ty d r =
     (case currentSession r of
        None \<Rightarrow> r
      | Some s \<Rightarrow>
          if \<not> isRecording r then r
          else r\<lparr>currentSession :=
                   Some (s\<lparr>events := events s @ [\<lparr>timestamp = now, etype = ty, data = d\<rparr>]\<rparr>)\<rparr>)"

text \<open>A handler's result handed to the callback.\<close>

definition emit :: "Date \<Rightarrow> emitted \<Rightarrow> SessionRecorder \<Rightarrow> SessionRecorder" where
  "emit now ev r = (case ev of None \<Rightarrow> r | Some (ty, d) \<Rightarrow> recordEvent now ty d r)"

text \<open>The \<open>keydown\<close> listener with the recorder behind it.\<close>

definition onKeyDown ::
  "Date \<Rightarrow> EventCollector \<Rightarrow> KeyboardEvent \<Rightarrow> SessionRecorder \<Rightarrow> js_error + SessionRecorder" where
  "onKeyDown now c e r =
     (case handleKeyDown c e of Inl err \<Rightarrow> Inl err | Inr ev \<Rightarrow> Inr (emit now ev r))"

text \<open>
  A run of the mouse-move listener over raw signals given with their arrival times, in
  arrival order: before each signal the timers that are due fire. The result is the
  list of emitted events, each with the arrival time of its signal; a signal on which
  the handler throws emits nothing, and the run goes on with the next signal.
\<close>

fun mouseMoveListener ::
  "EventHandlerOptions \<Rightarrow> EventCollector \<Rightarrow> (int \<times> MouseEvent) list
     \<Rightarrow> (int \<times> EventType \<times> EventData) list" where
  "mouseMoveListener opts c [] = []"
| "mouseMoveListener opts c ((t, e) # rest) =
     (case handleMouseMove opts t e (fireThrottleTimers t c) of
        (Inr (Some ev), c') \<Rightarrow> (t, ev) # mouseMoveListener opts c' rest
      | (_, c') \<Rightarrow> mouseMoveListener opts c' rest)"

text \<open>
  \<open>setupEventListeners\<close> installs the mouse-move listener only when
  \<open>captureMouseMove\<close> is set; without it no signal reaches the handler.
\<close>

definition mouseMoves ::
  "EventHandlerOptions \<Rightarrow> EventCollector \<Rightarrow> (int \<times> MouseEvent) list
     \<Rightarrow> (int \<times> EventType \<times> EventData) list" where
  "mouseMoves opts c signals =
     (if captureMouseMove opts then mouseMoveListener opts c signals else [])"


section \<open>Resource helper (ResourceHelper)\<close>

text \<open>
  The fields of \<open>RecorderOptions\<close> read by the resource pipeline. The allow-list is read
  through \<open>?.length\<close> in the source, so it may be undefined at run time: \<open>None\<close>.
\<close>

record RecorderOptions =
  inlineCss :: bool
  keepExternalResources :: bool
  allowedResourceDomains :: "string list option"

definition isDataUrl :: "string \<Rightarrow> bool" where
  "isDataUrl url = startsWith url ''data:''"

definition isResourceFromAllowedDomain :: "RecorderOptions \<Rightarrow> string \<Rightarrow> bool" where
  "isResourceFromAllowedDomain opts url =
     (if isDataUrl url \<or> \<not> startsWith url ''http'' then True
      else (case allowedResourceDomains opts of
              None \<Rightarrow> False
            | Some ds \<Rightarrow>
                (if length ds = 0 then False
                 else list_ex (\<lambda>domain. includes_str url domain) ds)))"

section \<open>Snapshot: fetching and inlining stylesheets\<close>

text \<open>
  What a \<open>throw\<close> or a rejected promise carries: an \<open>Error\<close> object with its message, or
  some other value. The browser is a parameter: \<open>resolveRelative\<close> is
  \<open>new URL(url, window.location.href).href\<close>, which throws on a malformed URL, and
  \<open>fetch\<close> gives for a URL either a rejection or a response with its \<open>ok\<close> flag, its
  status and the outcome of reading its text.
\<close>

datatype thrown = ErrorObject string | OtherValue

datatype FetchOutcome = Rejected thrown | Response bool nat "thrown + string"

record Browser =
  resolveRelative :: "string \<Rightarrow> thrown + string"
  fetch :: "string \<Rightarrow> FetchOutcome"

definition resolveUrl :: "Browser \<Rightarrow> string \<Rightarrow> thrown + string" where
  "resolveUrl env url = (if startsWith url ''http'' then Inr url else resolveRelative env url)"

text \<open>The \<open>catch\<close> block of \<open>fetchResource\<close>: the error becomes a CSS/JS comment.\<close>

definition fetchErrorComment :: "string \<Rightarrow> thrown \<Rightarrow> string" where
  "fetchErrorComment url err =
     ''/* Erro ao buscar '' @ url @ '': ''
       @ (case err of ErrorObject msg \<Rightarrow> msg | OtherValue \<Rightarrow> ''Erro desconhecido'') @ '' */''"

definition fetchResource :: "Browser \<Rightarrow> string \<Rightarrow> string" where
  "fetchResource env url =
     (case resolveUrl env url of
        Inl err \<Rightarrow> fetchErrorComment url err
      | Inr fullUrl \<Rightarrow>
          (case fetch env fullUrl of
             Rejected err \<Rightarrow> fetchErrorComment url err
           | Response ok status body \<Rightarrow>
               if \<not> ok then
                 fetchErrorComment url (ErrorObject (''Falha ao buscar recurso: '' @ showNat status))
               else (case body of
                       Inl err \<Rightarrow> fetchErrorComment url err
                     | Inr content \<Rightarrow> content)))"

text \<open>
  What is thrown inside the \<open>try\<close> block of \<open>fetchResource\<close>, if anything: by the URL
  constructor, by \<open>fetch\<close>, by the test of \<open>response.ok\<close>, or by reading the text.
\<close>

definition fetchFailure :: "Browser \<Rightarrow> string \<Rightarrow> thrown option" where
  "fetchFailure env url =
     (case resolveUrl env url of
        Inl err \<Rightarrow> Some err
      | Inr fullUrl \<Rightarrow>
          (case fetch env fullUrl of
             Rejected err \<Rightarrow> Some err
           | Response ok status body \<Rightarrow>
               if \<not> ok then Some (ErrorObject (''Falha ao buscar recurso: '' @ showNat status))
               else (case body of Inl err \<Rightarrow> Some err | Inr content \<Rightarrow> None)))"

text \<open>
  The elements of the cloned document that matter to the stylesheet pass, in document
  order: a \<open>link rel="stylesheet"\<close> with its \<open>href\<close> attribute (if any), a \<open>style\<close>
  element with its attributes and text, or any other element.
\<close>

datatype Node =
  LinkStylesheet "string option"
  | StyleElement "(string \<times> string) list" string
  | OtherElement string

definition inlineStylesheet :: "Browser \<Rightarrow> string \<Rightarrow> Node" where
  "inlineStylesheet env href =
     StyleElement [(''data-loading-stylesheet'', href)]
       (''/* Inlined from '' @ href @ '' */'' @ [CHR 0x0A] @ fetchResource env href)"

fun processStylesheet :: "RecorderOptions \<Rightarrow> Browser \<Rightarrow> Node \<Rightarrow> Node list" where
  "processStylesheet opts env (LinkStylesheet None) = [LinkStylesheet None]"
| "processStylesheet opts env (LinkStylesheet (Some href)) =
     (if href = [] then [LinkStylesheet (Some href)]
      else if isResourceFromAllowedDomain opts href \<and> inlineCss opts then [inlineStylesheet env href]
      else if \<not> keepExternalResources opts then []
      else [LinkStylesheet (Some href)])"
| "processStylesheet opts env node = [node]"

definition processStylesheets :: "RecorderOptions \<Rightarrow> Browser \<Rightarrow> Node list \<Rightarrow> Node list" where
  "processStylesheets opts env htmlClone = concat (map (processStylesheet opts env) htmlClone)"

section \<open>The ISO format of dates\<close>



definition daysFromCivil :: "int \<Rightarrow> int \<Rightarrow> int \<Rightarrow> int" where
  "daysFromCivil y m d =
     (let y' = (if m \<le> 2 then y - 1 else y);
          era = y' div 400;
          yoe = y' mod 400;
          doy = (153 * (if m > 2 then m - 3 else m + 9) + 2) div 5 + d - 1;
          doe = yoe * 365 + yoe div 4 - yoe div 100 + doy
      in era * 146097 + doe - 719468)"



fun readDigits :: "nat \<Rightarrow> string \<Rightarrow> nat option" where
  "readDigits acc [] = Some acc"
| "readDigits acc (c # cs) =
     (case digitVal c of None \<Rightarrow> None | Some v \<Rightarrow> readDigits (10 * acc + v) cs)"

definition field :: "string \<Rightarrow> nat \<Rightarrow> nat \<Rightarrow> nat option" where
  "field s from len = (if length s < from + len then None else readDigits 0 (take len (drop from s)))"

definition parseDateTime :: "int \<Rightarrow> nat \<Rightarrow> string \<Rightarrow> Date" where
  "parseDateTime sign yearLen s =
     (if length s \<noteq> yearLen + 20
         \<or> map (\<lambda>i. s ! (yearLen + i)) [0, 3, 6, 9, 12, 15, 19] \<noteq> ''--T::.Z'' then InvalidDate
      else
        (case (field s 0 yearLen, field s (yearLen + 1) 2, field s (yearLen + 4) 2,
               field s (yearLen + 7) 2, field s (yearLen + 10) 2, field s (yearLen + 13) 2,
               field s (yearLen + 16) 3) of
           (Some y, Some m, Some d, Some hh, Some mm, Some ss, Some ms) \<Rightarrow>
             if m < 1 \<or> 12 < m \<or> d < 1 \<or> 31 < d \<or> 23 < hh \<or> 59 < mm \<or> 59 < ss then InvalidDate
             else Date (daysFromCivil (sign * int y) (int m) (int d) * 86400000
                        + int hh * 3600000 + int mm * 60000 + int ss * 1000 + int ms)
         | _ \<Rightarrow> InvalidDate))"

definition parseISOString :: "string \<Rightarrow> Date" where
  "parseISOString s =
     (case s of
        [] \<Rightarrow> InvalidDate
      | c # cs \<Rightarrow>
          if c = CHR ''+'' then parseDateTime 1 6 cs
          else if c = CHR ''-'' then parseDateTime (- 1) 6 cs
          else parseDateTime 1 4 s)"

section \<open>Storage: LocalStorageAdapter\<close>






text \<open>\<open>new Date(date)\<close> on a \<open>Date\<close> object copies its time value.\<close>

definition copyDate :: "Date \<Rightarrow> Date" where
  "copyDate d = d"












section \<open>Replay: ReplayController\<close>

text \<open>
  \<open>nextTimer\<close> is the pending timer, represented by the delay it was scheduled with; its
  callback is always the one \<open>processNextEvent\<close> passes. The source keeps the id of a
  timer that has fired in the field, where clearing it does nothing; the model keeps
  pending timers only.
\<close>

record ReplayController =
  playing :: bool
  currentIndex :: nat
  speed :: number
  loop :: bool
  nextTimer :: "number option"

definition cancelNextTimer :: "ReplayController \<Rightarrow> ReplayController" where
  "cancelNextTimer c = (if nextTimer c \<noteq> None then c\<lparr>nextTimer := None\<rparr> else c)"

definition rc_play :: "ReplayController \<Rightarrow> ReplayController" where
  "rc_play c = c\<lparr>playing := True\<rparr>"

definition rc_pause :: "ReplayController \<Rightarrow> ReplayController" where
  "rc_pause c = cancelNextTimer (c\<lparr>playing := False\<rparr>)"

definition rc_stop :: "ReplayController \<Rightarrow> ReplayController" where
  "rc_stop c = cancelNextTimer (c\<lparr>playing := False, currentIndex := 0\<rparr>)"

definition rc_complete :: "ReplayController \<Rightarrow> ReplayController" where
  "rc_complete c = c\<lparr>playing := False\<rparr>"

definition setCurrentIndex :: "nat \<Rightarrow> ReplayController \<Rightarrow> ReplayController" where
  "setCurrentIndex index c = c\<lparr>currentIndex := index\<rparr>"

definition incrementIndex :: "ReplayController \<Rightarrow> ReplayController" where
  "incrementIndex c = c\<lparr>currentIndex := currentIndex c + 1\<rparr>"

definition rc_setSpeed :: "number \<Rightarrow> ReplayController \<Rightarrow> ReplayController" where
  "rc_setSpeed v c = c\<lparr>speed := v\<rparr>"

definition reset :: "ReplayController \<Rightarrow> ReplayController" where
  "reset c = rc_stop c"

definition scheduleNext :: "number \<Rightarrow> ReplayController \<Rightarrow> ReplayController" where
  "scheduleNext delayMs c = (cancelNextTimer c)\<lparr>nextTimer := Some delayMs\<rparr>"

section \<open>Replay: SessionReplayer\<close>

text \<open>
  The replayer with its controller and, made explicit, what it does to the outside:
  \<open>clock\<close> is the time in milliseconds, \<open>delivered\<close> the events handed to \<open>onEvent\<close> and
  the event processor with the time of delivery, \<open>completions\<close> the number of calls of
  \<open>onComplete\<close>. The cursor overlay, the iframe and the choice of content are left out.
\<close>

record ReplayOptions =
  option_speed :: "number option"
  option_loop :: "bool option"

record SessionReplayer =
  session :: "Date RecordingSession option"
  options_loop :: bool
  replayController :: ReplayController
  clock :: rat
  delivered :: "(rat \<times> Date SessionEvent) list"
  completions :: nat

definition newSessionReplayer :: "ReplayOptions \<Rightarrow> SessionReplayer" where
  "newSessionReplayer opts =
     (let sp = (case option_speed opts of None \<Rightarrow> Num 1 | Some v \<Rightarrow> v);
          lp = (case option_loop opts of None \<Rightarrow> False | Some b \<Rightarrow> b)
      in \<lparr> session = None, options_loop = lp,
           replayController =
             \<lparr> playing = False, currentIndex = 0, speed = sp, loop = lp, nextTimer = None \<rparr>,
           clock = 0, delivered = [], completions = 0 \<rparr>)"

definition calculateDelay :: "SessionReplayer \<Rightarrow> Date SessionEvent \<Rightarrow> Date SessionEvent \<Rightarrow> number" where
  "calculateDelay r currentEvent nextEvent =
     (let currentTime = getTime (timestamp currentEvent);
          nextTime = getTime (timestamp nextEvent)
      in num_div (num_sub nextTime currentTime) (speed (replayController r)))"

definition complete :: "SessionReplayer \<Rightarrow> SessionReplayer" where
  "complete r = r\<lparr> replayController := rc_complete (replayController r),
                   completions := completions r + 1 \<rparr>"

function processNextEvent :: "SessionReplayer \<Rightarrow> SessionReplayer" where
  "processNextEvent r =
     (case session r of
        None \<Rightarrow> r
      | Some s \<Rightarrow>
          if \<not> playing (replayController r) then r
          else if currentIndex (replayController r) \<ge> length (events s) then
            (if options_loop r
             then processNextEvent (r\<lparr>replayController := reset (replayController r)\<rparr>)
             else complete r)
          else
            (let i = currentIndex (replayController r);
                 currentEvent = events s ! i;
                 r' = r\<lparr>delivered := delivered r @ [(clock r, currentEvent)]\<rparr>
             in if i + 1 < length (events s) then
                  r'\<lparr>replayController :=
                       scheduleNext (calculateDelay r' currentEvent (events s ! (i + 1)))
                         (replayController r')\<rparr>
                else
                  processNextEvent (r'\<lparr>replayController := incrementIndex (replayController r')\<rparr>)))"
  by pat_completeness auto
termination
  by (relation "measure (\<lambda>r. if playing (replayController r)
                               then 2 + (case session r of None \<Rightarrow> 0
                                         | Some s \<Rightarrow> length (events s) - currentIndex (replayController r))
                               else 0)")
     (auto simp: reset_def rc_stop_def cancelNextTimer_def incrementIndex_def)

declare processNextEvent.simps [simp del]

definition loadSession :: "Date RecordingSession \<Rightarrow> SessionReplayer \<Rightarrow> SessionReplayer" where
  "loadSession s r =
     (let r1 = r\<lparr>replayController := rc_stop (replayController r)\<rparr>;
          r2 = r1\<lparr>session := Some s\<rparr>
      in r2\<lparr>replayController := reset (replayController r2)\<rparr>)"

definition play :: "SessionReplayer \<Rightarrow> SessionReplayer" where
  "play r =
     (if session r = None then r
      else if playing (replayController r) then r
      else processNextEvent (r\<lparr>replayController := rc_play (replayController r)\<rparr>))"

definition pause :: "SessionReplayer \<Rightarrow> SessionReplayer" where
  "pause r = r\<lparr>replayController := rc_pause (replayController r)\<rparr>"

definition stop :: "SessionReplayer \<Rightarrow> SessionReplayer" where
  "stop r = r\<lparr>replayController := rc_stop (replayController r)\<rparr>"

text \<open>The loop of \<open>findClosestEventIndex\<close>: \<open>i\<close> is the loop counter, \<open>index\<close> the result so far.\<close>

fun findClosestLoop :: "number \<Rightarrow> Date SessionEvent list \<Rightarrow> nat \<Rightarrow> nat \<Rightarrow> nat" where
  "findClosestLoop targetTime [] i index = index"
| "findClosestLoop targetTime (e # es) i index =
     (if num_le (getTime (timestamp e)) targetTime
      then findClosestLoop targetTime es (i + 1) i
      else index)"

definition findClosestEventIndex :: "SessionReplayer \<Rightarrow> number \<Rightarrow> nat" where
  "findClosestEventIndex r targetTime =
     (case session r of None \<Rightarrow> 0 | Some s \<Rightarrow> findClosestLoop targetTime (events s) 0 0)"

definition seekTo :: "number \<Rightarrow> SessionReplayer \<Rightarrow> SessionReplayer" where
  "seekTo timeInMs r =
     (case session r of
        None \<Rightarrow> r
      | Some s \<Rightarrow>
          (let wasPlaying = playing (replayController r);
               r1 = stop r;
               targetTime = double_add (getTime (startTime s)) timeInMs;
               eventIndex = findClosestEventIndex r1 targetTime;
               r2 = r1\<lparr>replayController := setCurrentIndex eventIndex (replayController r1)\<rparr>
           in if wasPlaying then play r2 else r2))"

definition setSpeed :: "number \<Rightarrow> SessionReplayer \<Rightarrow> SessionReplayer" where
  "setSpeed v r = r\<lparr>replayController := rc_setSpeed v (replayController r)\<rparr>"

text \<open>
  The browser runs the pending timer: the clock advances by the delay (\<open>setTimeout\<close>
  takes a delay that is not a positive finite number as 0) and the callback scheduled
  by \<open>processNextEvent\<close> runs.
\<close>

definition timeoutDelay :: "number \<Rightarrow> rat" where
  "timeoutDelay d = (case d of Num v \<Rightarrow> max 0 v | _ \<Rightarrow> 0)"

definition timerFires :: "SessionReplayer \<Rightarrow> SessionReplayer" where
  "timerFires r =
     (case nextTimer (replayController r) of
        None \<Rightarrow> r
      | Some delayMs \<Rightarrow>
          (let r1 = r\<lparr> clock := clock r + timeoutDelay delayMs,
                       replayController := (replayController r)\<lparr>nextTimer := None\<rparr> \<rparr>
           in processNextEvent (r1\<lparr>replayController := incrementIndex (replayController r1)\<rparr>)))"

text \<open>What can happen to a replayer: a call of its interface, or the pending timer firing.\<close>

datatype ReplayOp =
  LoadSession "Date RecordingSession"
  | Play | Pause | Stop
  | SeekTo number
  | SetSpeed number
  | TimerFires

fun applyOp :: "ReplayOp \<Rightarrow> SessionReplayer \<Rightarrow> SessionReplayer" where
  "applyOp (LoadSession s) r = loadSession s r"
| "applyOp Play r = play r"
| "applyOp Pause r = pause r"
| "applyOp Stop r = stop r"
| "applyOp (SeekTo t) r = seekTo t r"
| "applyOp (SetSpeed v) r = setSpeed v r"
| "applyOp TimerFires r = timerFires r"

fun applyOps :: "ReplayOp list \<Rightarrow> SessionReplayer \<Rightarrow> SessionReplayer" where
  "applyOps [] r = r"
| "applyOps (op # ops) r = applyOps ops (applyOp op r)"

text \<open>
  The session of the specification's scenario: a navigation at the start of the
  session, a click at (10, 10) after 500 ms and a pointer move to (20, 20) after 1500 ms.
\<close>

definition scenarioSession :: "Date RecordingSession" where
  "scenarioSession =
     \<lparr> session_id = ''scenario'',
       startTime = Date 1700000000000,
       endTime = Date 1700000001500,
       events =
         [\<lparr> timestamp = Date 1700000000000, etype = NAVIGATION,
            data = NavigationData \<lparr> nav_from = ''direct'', nav_to = ''https://site.example/'',
                                    nav_title = None \<rparr> \<rparr>,
          \<lparr> timestamp = Date 1700000000500, etype = MOUSE_CLICK,
            data = MouseData \<lparr> mouse_x = 10, mouse_y = 10, mouse_target = None,
                               button = Some 0, scrollDelta = None \<rparr> \<rparr>,
          \<lparr> timestamp = Date 1700000001500, etype = MOUSE_MOVE,
            data = MouseData \<lparr> mouse_x = 20, mouse_y = 20, mouse_target = None,
                               button = None, scrollDelta = None \<rparr> \<rparr>] \<rparr>"

section \<open>Player: SessionPlayer\<close>

text \<open>
  The duration \<open>SessionPlayer.loadSession\<close> computes. The session may come straight from
  JSON, so a time value may be missing, \<open>null\<close>, a string or a \<open>Date\<close> object. The
  source tests the start and the end for truthiness and passes every time value
  through \<open>new Date(\<cdot>)\<close>: an invalid date for a missing value, the epoch for \<open>null\<close>,
  the parsed date for a string, a copy for a \<open>Date\<close>.
\<close>

datatype time_value = TimeUndefined | TimeNull | TimeText string | TimeObject Date

fun truthy :: "time_value \<Rightarrow> bool" where
  "truthy TimeUndefined = False"
| "truthy TimeNull = False"
| "truthy (TimeText s) = (s \<noteq> [])"
| "truthy (TimeObject d) = True"

fun dateOf :: "time_value \<Rightarrow> Date" where
  "dateOf TimeUndefined = InvalidDate"
| "dateOf TimeNull = Date 0"
| "dateOf (TimeText s) = parseISOString s"
| "dateOf (TimeObject d) = copyDate d"

definition loadSession_duration :: "time_value RecordingSession \<Rightarrow> number" where
  "loadSession_duration s =
     (if truthy (startTime s) \<and> truthy (endTime s) then
        num_sub (getTime (dateOf (startTime s))) (getTime (dateOf (endTime s)))
      else if length (events s) > 1 then
        (let firstEvent = events s ! 0;
             lastEvent = events s ! (length (events s) - 1)
         in num_sub (getTime (dateOf (timestamp lastEvent))) (getTime (dateOf (timestamp firstEvent))))
      else Num 0)"

section \<open>Properties\<close>

lemma startsWith_iff: "startsWith s p \<longleftrightarrow> (\<exists>q. s = p @ q)"
  unfolding startsWith_def
  by (metis append_eq_conv_conj append_take_drop_id)

lemma includes_str_iff: "includes_str s d \<longleftrightarrow> (\<exists>p q. s = p @ d @ q)"
proof (induction s)
  case Nil
  then show ?case by auto
next
  case (Cons c cs)
  note IH = Cons.IH
  show ?case
  proof
    assume "includes_str (c # cs) d"
    then consider "startsWith (c # cs) d" | "includes_str cs d" by auto
    then show "\<exists>p q. c # cs = p @ d @ q"
    proof cases
      case 1
      then obtain q where "c # cs = d @ q" using startsWith_iff by blast
      then have "c # cs = [] @ d @ q" by simp
      then show ?thesis by blast
    next
      case 2
      then obtain p q where "cs = p @ d @ q" using IH by blast
      then have "c # cs = (c # p) @ d @ q" by simp
      then show ?thesis by blast
    qed
  next
    assume "\<exists>p q. c # cs = p @ d @ q"
    then obtain p q where pq: "c # cs = p @ d @ q" by blast
    show "includes_str (c # cs) d"
    proof (cases p)
      case Nil
      with pq have "startsWith (c # cs) d" using startsWith_iff by auto
      then show ?thesis by simp
    next
      case (Cons a p')
      with pq have "cs = p' @ d @ q" by simp
      then have "includes_str cs d" using IH by blast
      then show ?thesis by simp
    qed
  qed
qed

lemma http_not_data: "startsWith url ''http'' \<Longrightarrow> \<not> isDataUrl url"
proof
  assume h: "startsWith url ''http''" and d: "isDataUrl url"
  from h obtain q where "url = ''http'' @ q" using startsWith_iff by blast
  moreover from d obtain q' where "url = ''data:'' @ q'"
    unfolding isDataUrl_def using startsWith_iff by blast
  ultimately show False by simp
qed

subsection \<open>The allowed-domain test\<close>

text \<open>
  Claim C10. The allowed-domain test accepts every \<open>data:\<close> URL and every URL that does
  not start with \<open>http\<close>. For a URL that starts with \<open>http\<close> it holds exactly when the
  allow-list is present and non-empty and some configured domain occurs as a substring
  somewhere in the URL; so a URL that only has an allowed domain in its path is accepted,
  as the last conjunct shows on an example.
\<close>

theorem allowed_domain_test:
  "(isDataUrl url \<or> \<not> startsWith url ''http'' \<longrightarrow> isResourceFromAllowedDomain opts url)
   \<and> (startsWith url ''http'' \<longrightarrow>
        isResourceFromAllowedDomain opts url =
          (\<exists>ds. allowedResourceDomains opts = Some ds \<and> ds \<noteq> []
                \<and> (\<exists>domain \<in> set ds. \<exists>p q. url = p @ domain @ q)))
   \<and> isResourceFromAllowedDomain
        \<lparr> inlineCss = True, keepExternalResources = True,
          allowedResourceDomains = Some [''cdn.jsdelivr.net''] \<rparr>
        ''http://evil.example/cdn.jsdelivr.net/x.css''"
proof (intro conjI impI)
  assume "isDataUrl url \<or> \<not> startsWith url ''http''"
  then show "isResourceFromAllowedDomain opts url"
    by (simp add: isResourceFromAllowedDomain_def)
next
  assume h: "startsWith url ''http''"
  then have nd: "\<not> isDataUrl url" by (rule http_not_data)
  show "isResourceFromAllowedDomain opts url =
          (\<exists>ds. allowedResourceDomains opts = Some ds \<and> ds \<noteq> []
                \<and> (\<exists>domain \<in> set ds. \<exists>p q. url = p @ domain @ q))"
  proof (cases "allowedResourceDomains opts")
    case None
    with h nd show ?thesis by (simp add: isResourceFromAllowedDomain_def)
  next
    case (Some ds)
    with h nd show ?thesis
      by (auto simp: isResourceFromAllowedDomain_def list_ex_iff includes_str_iff)
  qed
next
  show "isResourceFromAllowedDomain
        \<lparr> inlineCss = True, keepExternalResources = True,
          allowedResourceDomains = Some [''cdn.jsdelivr.net''] \<rparr>
        ''http://evil.example/cdn.jsdelivr.net/x.css''"
    by (simp add: isResourceFromAllowedDomain_def isDataUrl_def startsWith_def)
qed

theorem allowed_domain_test_witness:
  "(\<not> startsWith ''img/logo.png'' ''http''
      \<and> isResourceFromAllowedDomain
           \<lparr> inlineCss = True, keepExternalResources = True, allowedResourceDomains = None \<rparr>
           ''img/logo.png'')
   \<and> (startsWith ''https://cdn.jsdelivr.net/a.css'' ''http''
      \<and> isResourceFromAllowedDomain
           \<lparr> inlineCss = True, keepExternalResources = True,
             allowedResourceDomains = Some [''cdn.jsdelivr.net''] \<rparr>
           ''https://cdn.jsdelivr.net/a.css'')"
proof -
  let ?o1 = "\<lparr> inlineCss = True, keepExternalResources = True, allowedResourceDomains = None \<rparr>"
  let ?o2 = "\<lparr> inlineCss = True, keepExternalResources = True,
             allowedResourceDomains = Some [''cdn.jsdelivr.net''] \<rparr>"
  have a: "\<not> startsWith ''img/logo.png'' ''http''" by (simp add: startsWith_def)
  have b: "startsWith ''https://cdn.jsdelivr.net/a.css'' ''http''" by (simp add: startsWith_def)
  have c: "\<exists>p q. ''https://cdn.jsdelivr.net/a.css'' = p @ ''cdn.jsdelivr.net'' @ q"
    using includes_str_iff [of "''https://cdn.jsdelivr.net/a.css''" "''cdn.jsdelivr.net''"]
    by (simp add: startsWith_def)
  from a allowed_domain_test [of "''img/logo.png''" ?o1]
  have 1: "isResourceFromAllowedDomain ?o1 ''img/logo.png''" by blast
  from b allowed_domain_test [of "''https://cdn.jsdelivr.net/a.css''" ?o2]
  have "isResourceFromAllowedDomain ?o2 ''https://cdn.jsdelivr.net/a.css'' =
          (\<exists>ds. allowedResourceDomains ?o2 = Some ds \<and> ds \<noteq> []
                \<and> (\<exists>domain \<in> set ds. \<exists>p q. ''https://cdn.jsdelivr.net/a.css'' = p @ domain @ q))"
    by blast
  moreover have "\<exists>ds. allowedResourceDomains ?o2 = Some ds \<and> ds \<noteq> []
                \<and> (\<exists>domain \<in> set ds. \<exists>p q. ''https://cdn.jsdelivr.net/a.css'' = p @ domain @ q)"
    using c by simp
  ultimately have 2: "isResourceFromAllowedDomain ?o2 ''https://cdn.jsdelivr.net/a.css''" by simp
  from a b 1 2 show ?thesis by simp
qed

subsection \<open>Masking of password input\<close>

text \<open>
  In an HTML document, where the tag name of an input element is \<open>INPUT\<close>, a keydown
  on a password input that passes the exclusion test is emitted with key \<open>*\<close> and key
  code 0, whatever key was pressed.
\<close>

lemma handleKeyDown_masks_INPUT:
  assumes "key_event_target e = Some target"
      and "tagName target = ''INPUT''"
      and "inputType target = ''password''"
      and "shouldExcludeElement c target = Inr False"
  shows "handleKeyDown c e =
           Inr (Some (KEY_DOWN,
             KeyboardData \<lparr> key = ''*'', keyCode = 0,
               modifiers = \<lparr> ctrl = ctrlKey e, alt = altKey e, shift = shiftKey e, meta = metaKey e \<rparr>,
               key_target = Some (getElementInfo target) \<rparr>))"
    and "handleKeyDown c (e\<lparr>event_key := k, event_keyCode := kc\<rparr>) = handleKeyDown c e"
  using assms by (simp_all add: handleKeyDown_def)

text \<open>
  Claim C5. The claim asks that a keydown on a password input is recorded with the
  placeholder key and never with the real key. The handler compares the tag name with
  \<open>INPUT\<close> exactly. In an XML (XHTML) document the tag name of an input element is
  \<open>input\<close>: for a keydown of the key \<open>s\<close> on such a password input, not excluded, the
  handler skips the masking branch and the recorder stores the real key \<open>s\<close> with key
  code 83. The element is an input element (its tag name in upper case is \<open>INPUT\<close>) of
  type \<open>password\<close>.
\<close>

theorem password_keydown_lowercase_tag_records_key:
  "toUpperCase (tagName
      \<lparr> tagName = ''input'', element_id = ''pw'', className = '''', inputType = ''password'',
        cssPath = ''input#pw'', matchedSelectors = [], rejectedSelectors = [] \<rparr>) = ''INPUT''
   \<and> onKeyDown (Date 1000)
     \<lparr> excludeElements = [''.no-record'', ''[data-private]''], throttleTimers = Map.empty \<rparr>
     \<lparr> event_key = ''s'', event_keyCode = 83, ctrlKey = False, altKey = False, shiftKey = False,
       metaKey = False,
       key_event_target = Some \<lparr> tagName = ''input'', element_id = ''pw'', className = '''',
         inputType = ''password'', cssPath = ''input#pw'', matchedSelectors = [],
         rejectedSelectors = [] \<rparr> \<rparr>
     \<lparr> isRecording = True,
       currentSession = Some \<lparr> session_id = ''a'', startTime = Date 0, endTime = Date 0, events = [] \<rparr> \<rparr>
   = Inr \<lparr> isRecording = True,
       currentSession = Some \<lparr> session_id = ''a'', startTime = Date 0, endTime = Date 0,
         events = [\<lparr> timestamp = Date 1000, etype = KEY_DOWN,
           data = KeyboardData \<lparr> key = ''s'', keyCode = 83,
             modifiers = \<lparr> ctrl = False, alt = False, shift = False, meta = False \<rparr>,
             key_target = Some \<lparr> info_tagName = ''input'', info_id = Some ''pw'',
               info_className = None, info_path = Some ''input#pw'' \<rparr> \<rparr> \<rparr>] \<rparr> \<rparr>"
  by (simp add: onKeyDown_def handleKeyDown_def shouldExcludeElement_def emit_def recordEvent_def
      getElementInfo_def toLowerCase_def lowerChar_def toUpperCase_def upperChar_def orUndefined_def)

subsection \<open>The duration computed by the player\<close>

text \<open>
  Claim C9. When a session has both a start and an end time, the player computes its
  duration as start minus end. For a session that ends after it starts the result is
  therefore the negative of the elapsed time.
\<close>

theorem player_duration_reversed:
  assumes "startTime s = TimeObject (Date a)" and "endTime s = TimeObject (Date b)"
  shows "loadSession_duration s = Num (of_int a - of_int b)
         \<and> (a < b \<longrightarrow> loadSession_duration s = Num (- of_int (b - a))
                      \<and> of_int a - of_int b < (0::rat))"
  using assms by (simp add: loadSession_duration_def copyDate_def num_sub_def)

theorem player_duration_reversed_witness:
  "loadSession_duration
     \<lparr> session_id = ''a'', startTime = TimeObject (Date 1000), endTime = TimeObject (Date 61000), events = [] \<rparr>
   = Num (- 60000)"
proof -
  let ?s = "\<lparr> session_id = ''a'', startTime = TimeObject (Date 1000), endTime = TimeObject (Date 61000),
             events = [] \<rparr> :: time_value RecordingSession"
  have h1: "startTime ?s = TimeObject (Date 1000)" by simp
  have h2: "endTime ?s = TimeObject (Date 61000)" by simp
  have h3: "(1000::int) < 61000" by simp
  from player_duration_reversed [OF h1 h2] h3 show ?thesis by simp
qed

subsection \<open>A stylesheet that cannot be fetched\<close>

lemma fetchResource_failure:
  "fetchFailure env url = Some err \<Longrightarrow> fetchResource env url = fetchErrorComment url err"
  by (auto simp: fetchFailure_def fetchResource_def split: sum.splits FetchOutcome.splits if_splits)

lemma processStylesheets_append:
  "processStylesheets opts env (xs @ ys) = processStylesheets opts env xs @ processStylesheets opts env ys"
  by (simp add: processStylesheets_def)

text \<open>
  Claim C6. When the fetch of an allowed external stylesheet fails (the URL cannot be
  resolved, the request is rejected, the response is not ok, or its text cannot be
  read), the stylesheet pass still returns the processed document: the link is replaced
  by a style element whose text is the provenance comment followed by a comment that
  names the URL and the error, and every other element is processed as it would be on
  its own. The pass has no error result: every throw lies inside the \<open>try\<close> block of
  \<open>fetchResource\<close>.
\<close>

theorem stylesheet_fetch_failure_degrades_one_resource:
  assumes "href \<noteq> []"
      and "isResourceFromAllowedDomain opts href"
      and "inlineCss opts"
      and "fetchFailure env href = Some err"
  shows "processStylesheets opts env (before @ [LinkStylesheet (Some href)] @ after) =
           processStylesheets opts env before
           @ [StyleElement [(''data-loading-stylesheet'', href)]
                (''/* Inlined from '' @ href @ '' */'' @ [CHR 0x0A] @ fetchErrorComment href err)]
           @ processStylesheets opts env after
         \<and> fetchErrorComment href err =
             ''/* Erro ao buscar '' @ href @ '': ''
               @ (case err of ErrorObject msg \<Rightarrow> msg | OtherValue \<Rightarrow> ''Erro desconhecido'') @ '' */''"
proof -
  have "processStylesheets opts env [LinkStylesheet (Some href)] =
          [StyleElement [(''data-loading-stylesheet'', href)]
             (''/* Inlined from '' @ href @ '' */'' @ [CHR 0x0A] @ fetchErrorComment href err)]"
    using assms by (simp add: processStylesheets_def inlineStylesheet_def fetchResource_failure)
  then have "processStylesheets opts env (before @ [LinkStylesheet (Some href)] @ after) =
           processStylesheets opts env before
           @ [StyleElement [(''data-loading-stylesheet'', href)]
                (''/* Inlined from '' @ href @ '' */'' @ [CHR 0x0A] @ fetchErrorComment href err)]
           @ processStylesheets opts env after"
    by (simp only: processStylesheets_append)
  moreover have "fetchErrorComment href err =
             ''/* Erro ao buscar '' @ href @ '': ''
               @ (case err of ErrorObject msg \<Rightarrow> msg | OtherValue \<Rightarrow> ''Erro desconhecido'') @ '' */''"
    by (simp add: fetchErrorComment_def)
  ultimately show ?thesis by blast
qed

theorem stylesheet_fetch_failure_degrades_one_resource_witness:
  "processStylesheets
     \<lparr> inlineCss = True, keepExternalResources = True,
       allowedResourceDomains = Some [''cdn.jsdelivr.net''] \<rparr>
     \<lparr> resolveRelative = (\<lambda>u. Inr (''https://site.example/'' @ u)),
       fetch = (\<lambda>u. if u = ''https://cdn.jsdelivr.net/a.css''
                     then Rejected (ErrorObject ''Failed to fetch'')
                     else Response True 200 (Inr ''p{color:red}'')) \<rparr>
     [OtherElement ''meta'', LinkStylesheet (Some ''https://cdn.jsdelivr.net/a.css''),
      LinkStylesheet (Some ''b.css'')]
   = [OtherElement ''meta'',
      StyleElement [(''data-loading-stylesheet'', ''https://cdn.jsdelivr.net/a.css'')]
        (''/* Inlined from https://cdn.jsdelivr.net/a.css */'' @ [CHR 0x0A]
          @ ''/* Erro ao buscar https://cdn.jsdelivr.net/a.css: Failed to fetch */''),
      StyleElement [(''data-loading-stylesheet'', ''b.css'')]
        (''/* Inlined from b.css */'' @ [CHR 0x0A] @ ''p{color:red}'')]"
proof -
  let ?opts = "\<lparr> inlineCss = True, keepExternalResources = True,
       allowedResourceDomains = Some [''cdn.jsdelivr.net''] \<rparr>"
  let ?env = "\<lparr> resolveRelative = (\<lambda>u. Inr (''https://site.example/'' @ u)),
       fetch = (\<lambda>u. if u = ''https://cdn.jsdelivr.net/a.css''
                     then Rejected (ErrorObject ''Failed to fetch'')
                     else Response True 200 (Inr ''p{color:red}'')) \<rparr>"
  let ?href = "''https://cdn.jsdelivr.net/a.css''"
  have h1: "?href \<noteq> []" by simp
  have h2: "isResourceFromAllowedDomain ?opts ?href"
    by (simp add: isResourceFromAllowedDomain_def isDataUrl_def startsWith_def)
  have h3: "inlineCss ?opts" by simp
  have h4: "fetchFailure ?env ?href = Some (ErrorObject ''Failed to fetch'')"
    by (simp add: fetchFailure_def resolveUrl_def startsWith_def)
  have rest: "processStylesheets ?opts ?env [LinkStylesheet (Some ''b.css'')] =
      [StyleElement [(''data-loading-stylesheet'', ''b.css'')]
        (''/* Inlined from b.css */'' @ [CHR 0x0A] @ ''p{color:red}'')]"
    by (simp add: processStylesheets_def inlineStylesheet_def fetchResource_def resolveUrl_def
        isResourceFromAllowedDomain_def isDataUrl_def startsWith_def)
  have first: "processStylesheets ?opts ?env [OtherElement ''meta''] = [OtherElement ''meta'']"
    by (simp add: processStylesheets_def)
  have "processStylesheets ?opts ?env
          ([OtherElement ''meta''] @ [LinkStylesheet (Some ?href)] @ [LinkStylesheet (Some ''b.css'')]) =
        processStylesheets ?opts ?env [OtherElement ''meta'']
        @ [StyleElement [(''data-loading-stylesheet'', ?href)]
             (''/* Inlined from '' @ ?href @ '' */'' @ [CHR 0x0A]
               @ fetchErrorComment ?href (ErrorObject ''Failed to fetch''))]
        @ processStylesheets ?opts ?env [LinkStylesheet (Some ''b.css'')]"
    using stylesheet_fetch_failure_degrades_one_resource [OF h1 h2 h3 h4] by (rule conjunct1)
  then show ?thesis
    unfolding rest first by (simp add: fetchErrorComment_def)
qed

subsection \<open>Delivery and scheduling\<close>

text \<open>The three ways \<open>processNextEvent\<close> can go, and what it never changes.\<close>

lemma processNextEvent_idle:
  "session r = None \<or> \<not> playing (replayController r) \<Longrightarrow> processNextEvent r = r"
  by (subst processNextEvent.simps) (auto split: option.splits)

lemma processNextEvent_schedule:
  assumes "session r = Some s" and "playing (replayController r)"
      and "currentIndex (replayController r) = i" and "i + 1 < length (events s)"
  shows "processNextEvent r =
           r\<lparr> delivered := delivered r @ [(clock r, events s ! i)],
              replayController :=
                scheduleNext (calculateDelay r (events s ! i) (events s ! (i + 1)))
                  (replayController r) \<rparr>"
  using assms
  by (subst processNextEvent.simps) (simp add: Let_def calculateDelay_def)

lemma processNextEvent_last:
  assumes "session r = Some s" and "playing (replayController r)"
      and "currentIndex (replayController r) = i" and "i + 1 = length (events s)"
  shows "processNextEvent r =
           (if options_loop r
            then r\<lparr> delivered := delivered r @ [(clock r, events s ! i)],
                    replayController := reset (incrementIndex (replayController r)) \<rparr>
            else complete (r\<lparr> delivered := delivered r @ [(clock r, events s ! i)],
                    replayController := incrementIndex (replayController r) \<rparr>))"
proof -
  let ?r' = "r\<lparr> delivered := delivered r @ [(clock r, events s ! i)],
                 replayController := incrementIndex (replayController r) \<rparr>"
  have 1: "processNextEvent r = processNextEvent ?r'"
    using assms by (subst processNextEvent.simps) (simp add: Let_def)
  have 2: "processNextEvent ?r' =
             (if options_loop r then processNextEvent (?r'\<lparr>replayController := reset (replayController ?r')\<rparr>)
              else complete ?r')"
    using assms by (subst processNextEvent.simps) (simp add: incrementIndex_def)
  have 3: "processNextEvent (?r'\<lparr>replayController := reset (replayController ?r')\<rparr>)
            = ?r'\<lparr>replayController := reset (replayController ?r')\<rparr>"
    by (rule processNextEvent_idle) (simp add: reset_def rc_stop_def cancelNextTimer_def)
  show ?thesis unfolding 1 2 3 by simp
qed

lemma processNextEvent_frame:
  "session (processNextEvent r) = session r
   \<and> clock (processNextEvent r) = clock r
   \<and> options_loop (processNextEvent r) = options_loop r
   \<and> speed (replayController (processNextEvent r)) = speed (replayController r)
   \<and> loop (replayController (processNextEvent r)) = loop (replayController r)"
proof -
  show ?thesis
  proof (cases "session r")
    case None
    then show ?thesis by (simp add: processNextEvent_idle)
  next
    case (Some s)
    note s = Some
    show ?thesis
    proof (cases "playing (replayController r)")
      case False
      then show ?thesis by (simp add: processNextEvent_idle)
    next
      case True
      note pl = True
      consider (past) "length (events s) \<le> currentIndex (replayController r)"
        | (mid) "currentIndex (replayController r) + 1 < length (events s)"
        | (last) "currentIndex (replayController r) + 1 = length (events s)"
        by linarith
      then show ?thesis
      proof cases
        case past
        then have "processNextEvent r =
            (if options_loop r then processNextEvent (r\<lparr>replayController := reset (replayController r)\<rparr>)
             else complete r)"
          using s pl by (subst processNextEvent.simps) simp
        moreover have "processNextEvent (r\<lparr>replayController := reset (replayController r)\<rparr>)
            = r\<lparr>replayController := reset (replayController r)\<rparr>"
          by (rule processNextEvent_idle) (simp add: reset_def rc_stop_def cancelNextTimer_def)
        ultimately show ?thesis
          by (simp add: complete_def rc_complete_def reset_def rc_stop_def cancelNextTimer_def)
      next
        case mid
        from processNextEvent_schedule [OF s pl refl mid] show ?thesis
          by (simp add: scheduleNext_def cancelNextTimer_def)
      next
        case last
        from processNextEvent_last [OF s pl refl last] show ?thesis
          by (simp add: complete_def rc_complete_def reset_def rc_stop_def cancelNextTimer_def
              incrementIndex_def)
      qed
    qed
  qed
qed

lemma processNextEvent_delivers:
  assumes "session r = Some s" and "playing (replayController r)"
      and "currentIndex (replayController r) = i" and "i < length (events s)"
  shows "delivered (processNextEvent r) = delivered r @ [(clock r, events s ! i)]"
proof -
  consider (mid) "i + 1 < length (events s)" | (last) "i + 1 = length (events s)"
    using assms(4) by linarith
  then show ?thesis
  proof cases
    case mid
    from processNextEvent_schedule [OF assms(1-3) mid] show ?thesis by simp
  next
    case last
    from processNextEvent_last [OF assms(1-3) last] show ?thesis
      by (simp add: complete_def)
  qed
qed

text \<open>
  Claim C1. While playing with the cursor at index \<open>i\<close> and a next event present,
  \<open>processNextEvent\<close> delivers event \<open>i\<close> and schedules the next delivery with the delay
  (timestamp of event \<open>i + 1\<close> minus timestamp of event \<open>i\<close>) divided by the current speed,
  in JavaScript arithmetic; for valid dates and a finite non-zero speed this is the exact
  quotient. When that timer fires, event \<open>i + 1\<close> is delivered, the delay after event \<open>i\<close>.
  For the scenario session (events at 0, 500 and 1500 ms) replayed at speed 2 the three
  events are delivered 0, 250 and 750 ms after play starts.
\<close>

theorem delay_between_deliveries:
  assumes "session r = Some s" and "playing (replayController r)"
      and "currentIndex (replayController r) = i" and "i + 1 < length (events s)"
  shows "delivered (processNextEvent r) = delivered r @ [(clock r, events s ! i)]
       \<and> nextTimer (replayController (processNextEvent r)) =
           Some (num_div (num_sub (getTime (timestamp (events s ! (i + 1))))
                                  (getTime (timestamp (events s ! i))))
                         (speed (replayController r)))
       \<and> (\<forall>t1 t2 v. timestamp (events s ! i) = Date t1 \<and> timestamp (events s ! (i + 1)) = Date t2
              \<and> speed (replayController r) = Num v \<and> v \<noteq> 0 \<longrightarrow>
            nextTimer (replayController (processNextEvent r)) =
              Some (Num ((of_int t2 - of_int t1) / v)))
       \<and> (\<forall>d. nextTimer (replayController (processNextEvent r)) = Some d \<longrightarrow>
            delivered (timerFires (processNextEvent r)) =
              delivered r @ [(clock r, events s ! i), (clock r + timeoutDelay d, events s ! (i + 1))])
       \<and> map (\<lambda>(t, e). (t, etype e))
            (delivered (applyOps [LoadSession scenarioSession, Play, TimerFires, TimerFires]
               (newSessionReplayer \<lparr> option_speed = Some (Num 2), option_loop = None \<rparr>)))
          = [(0, NAVIGATION), (250, MOUSE_CLICK), (750, MOUSE_MOVE)]"
proof -
  let ?d = "num_div (num_sub (getTime (timestamp (events s ! (i + 1))))
                             (getTime (timestamp (events s ! i))))
                    (speed (replayController r))"
  let ?r1 = "processNextEvent r"
  have r1: "?r1 = r\<lparr> delivered := delivered r @ [(clock r, events s ! i)],
                      replayController := scheduleNext ?d (replayController r) \<rparr>"
    using processNextEvent_schedule [OF assms] by (simp add: calculateDelay_def)
  have a: "delivered ?r1 = delivered r @ [(clock r, events s ! i)]"
    by (simp add: r1)
  have b: "nextTimer (replayController ?r1) = Some ?d"
    by (simp add: r1 scheduleNext_def)
  have c: "\<forall>t1 t2 v. timestamp (events s ! i) = Date t1 \<and> timestamp (events s ! (i + 1)) = Date t2
              \<and> speed (replayController r) = Num v \<and> v \<noteq> 0 \<longrightarrow>
            nextTimer (replayController ?r1) = Some (Num ((of_int t2 - of_int t1) / v))"
    by (simp add: b num_sub_def)
  have d: "delivered (timerFires ?r1) =
             delivered r @ [(clock r, events s ! i), (clock r + timeoutDelay ?d, events s ! (i + 1))]"
  proof -
    let ?r2 = "?r1\<lparr> clock := clock ?r1 + timeoutDelay ?d,
                     replayController := (replayController ?r1)\<lparr>nextTimer := None\<rparr> \<rparr>"
    let ?r3 = "?r2\<lparr>replayController := incrementIndex (replayController ?r2)\<rparr>"
    have tf: "timerFires ?r1 = processNextEvent ?r3"
      using b by (simp add: timerFires_def Let_def)
    have s3: "session ?r3 = Some s" using assms(1) by (simp add: r1)
    have p3: "playing (replayController ?r3)"
      using assms(2) by (simp add: r1 scheduleNext_def cancelNextTimer_def incrementIndex_def)
    have i3: "currentIndex (replayController ?r3) = i + 1"
      using assms(3) by (simp add: r1 scheduleNext_def cancelNextTimer_def incrementIndex_def)
    have l3: "i + 1 < length (events s)" by (rule assms(4))
    have "delivered (processNextEvent ?r3) = delivered ?r3 @ [(clock ?r3, events s ! (i + 1))]"
      by (rule processNextEvent_delivers [OF s3 p3 i3 l3])
    also have "delivered ?r3 = delivered r @ [(clock r, events s ! i)]" by (simp add: r1)
    also have "clock ?r3 = clock r + timeoutDelay ?d" by (simp add: r1)
    finally show ?thesis by (simp add: tf)
  qed
  have e: "map (\<lambda>(t, e). (t, etype e))
            (delivered (applyOps [LoadSession scenarioSession, Play, TimerFires, TimerFires]
               (newSessionReplayer \<lparr> option_speed = Some (Num 2), option_loop = None \<rparr>)))
          = [(0, NAVIGATION), (250, MOUSE_CLICK), (750, MOUSE_MOVE)]"
    by code_simp
  from a b c d e show ?thesis by simp
qed

theorem delay_between_deliveries_witness:
  "nextTimer (replayController (processNextEvent
     \<lparr> session = Some scenarioSession, options_loop = False,
       replayController =
         \<lparr> playing = True, currentIndex = 0, speed = Num 2, loop = False, nextTimer = None \<rparr>,
       clock = 0, delivered = [], completions = 0 \<rparr>)) = Some (Num 250)"
proof -
  let ?r = "\<lparr> session = Some scenarioSession, options_loop = False,
       replayController =
         \<lparr> playing = True, currentIndex = 0, speed = Num 2, loop = False, nextTimer = None \<rparr>,
       clock = 0, delivered = [], completions = 0 \<rparr>"
  have h1: "session ?r = Some scenarioSession" by simp
  have h2: "playing (replayController ?r)" by simp
  have h3: "currentIndex (replayController ?r) = 0" by simp
  have h4: "0 + 1 < length (events scenarioSession)" by (simp add: scenarioSession_def)
  have t1: "timestamp (events scenarioSession ! 0) = Date 1700000000000"
    by (simp add: scenarioSession_def)
  have t2: "timestamp (events scenarioSession ! (0 + 1)) = Date 1700000000500"
    by (simp add: scenarioSession_def)
  have v: "speed (replayController ?r) = Num 2 \<and> (2::rat) \<noteq> 0" by simp
  from delay_between_deliveries [OF h1 h2 h3 h4] t1 t2 v
  have "nextTimer (replayController (processNextEvent ?r)) =
          Some (Num ((of_int 1700000000500 - of_int 1700000000000) / 2))"
    by blast
  then show ?thesis by simp
qed

subsection \<open>The speed multiplier\<close>

lemma applyOp_speed:
  "speed (replayController (applyOp op r)) =
     (case op of SetSpeed v \<Rightarrow> v | _ \<Rightarrow> speed (replayController r))"
proof (cases op)
  case (LoadSession s)
  then show ?thesis
    by (simp add: loadSession_def reset_def rc_stop_def cancelNextTimer_def Let_def)
next
  case Play
  then show ?thesis by (simp add: play_def processNextEvent_frame rc_play_def)
next
  case Pause
  then show ?thesis by (simp add: pause_def rc_pause_def cancelNextTimer_def)
next
  case Stop
  then show ?thesis by (simp add: stop_def rc_stop_def cancelNextTimer_def)
next
  case (SeekTo t)
  then show ?thesis
    by (simp add: seekTo_def play_def stop_def processNextEvent_frame rc_play_def rc_stop_def
        cancelNextTimer_def setCurrentIndex_def Let_def split: option.splits)
next
  case (SetSpeed v)
  then show ?thesis by (simp add: setSpeed_def rc_setSpeed_def)
next
  case TimerFires
  then show ?thesis
    by (simp add: timerFires_def processNextEvent_frame incrementIndex_def Let_def
        split: option.splits)
qed

lemma applyOps_speed_positive:
  "num_positive (speed (replayController r)) \<Longrightarrow>
   (\<forall>v. SetSpeed v \<in> set ops \<longrightarrow> num_positive v) \<Longrightarrow>
   num_positive (speed (replayController (applyOps ops r)))"
proof (induction ops arbitrary: r)
  case Nil
  then show ?case by simp
next
  case (Cons op ops)
  have "num_positive (speed (replayController (applyOp op r)))"
    using Cons.prems by (cases op) (simp_all add: applyOp_speed del: applyOp.simps)
  moreover have "\<forall>v. SetSpeed v \<in> set ops \<longrightarrow> num_positive v"
    using Cons.prems(2) by simp
  ultimately show ?case using Cons.IH by simp
qed

text \<open>
  Claim C7, as amended. The speed starts at the configured option (1 when none is
  given) and no operation changes it except \<open>setSpeed\<close>, which stores its argument
  unchecked. Hence the speed stays greater than 0 along any sequence of operations
  whenever it starts greater than 0 and every factor passed to \<open>setSpeed\<close> is greater
  than 0.
\<close>

theorem speed_changed_only_by_setSpeed:
  "speed (replayController (newSessionReplayer opts)) =
     (case option_speed opts of None \<Rightarrow> Num 1 | Some v \<Rightarrow> v)
   \<and> speed (replayController (applyOp op r)) =
       (case op of SetSpeed v \<Rightarrow> v | _ \<Rightarrow> speed (replayController r))
   \<and> (num_positive (speed (replayController r))
        \<and> (\<forall>v. SetSpeed v \<in> set ops \<longrightarrow> num_positive v) \<longrightarrow>
      num_positive (speed (replayController (applyOps ops r))))"
proof -
  have "speed (replayController (newSessionReplayer opts)) =
     (case option_speed opts of None \<Rightarrow> Num 1 | Some v \<Rightarrow> v)"
    by (simp add: newSessionReplayer_def Let_def)
  then show ?thesis
    using applyOp_speed [of op r] applyOps_speed_positive [of r ops] by blast
qed

theorem speed_changed_only_by_setSpeed_witness:
  "num_positive (speed (replayController
     (applyOps [LoadSession scenarioSession, Play, SetSpeed (Num 2), TimerFires, SeekTo (Num 0)]
        (newSessionReplayer \<lparr> option_speed = None, option_loop = None \<rparr>))))"
proof -
  let ?r = "newSessionReplayer \<lparr> option_speed = None, option_loop = None \<rparr>"
  let ?ops = "[LoadSession scenarioSession, Play, SetSpeed (Num 2), TimerFires, SeekTo (Num 0)]"
  have h1: "num_positive (speed (replayController ?r))"
    by (simp add: newSessionReplayer_def)
  have h2: "\<forall>v. SetSpeed v \<in> set ?ops \<longrightarrow> num_positive v" by simp
  from speed_changed_only_by_setSpeed [of _ _ ?r ?ops] h1 h2 show ?thesis by blast
qed

text \<open>
  The claim as stated fails: \<open>setSpeed(0)\<close> on a fresh replayer, whose speed is 1, leaves
  the speed at 0.
\<close>

theorem setSpeed_zero_counterexample:
  "num_positive (speed (replayController
      (newSessionReplayer \<lparr> option_speed = None, option_loop = None \<rparr>)))
   \<and> \<not> num_positive (speed (replayController
      (setSpeed (Num 0) (newSessionReplayer \<lparr> option_speed = None, option_loop = None \<rparr>))))"
  by (simp add: newSessionReplayer_def setSpeed_def rc_setSpeed_def)

subsection \<open>A speed change during playback\<close>

lemma processNextEvent_speed_independent:
  "delivered (processNextEvent (r\<lparr>replayController := (replayController r)\<lparr>speed := v\<rparr>\<rparr>))
     = delivered (processNextEvent r)
   \<and> playing (replayController (processNextEvent (r\<lparr>replayController := (replayController r)\<lparr>speed := v\<rparr>\<rparr>)))
     = playing (replayController (processNextEvent r))
   \<and> currentIndex (replayController (processNextEvent (r\<lparr>replayController := (replayController r)\<lparr>speed := v\<rparr>\<rparr>)))
     = currentIndex (replayController (processNextEvent r))"
proof -
  let ?r' = "r\<lparr>replayController := (replayController r)\<lparr>speed := v\<rparr>\<rparr>"
  show ?thesis
  proof (cases "session r")
    case None
    then show ?thesis by (simp add: processNextEvent_idle)
  next
    case (Some s)
    note s = Some
    then have s': "session ?r' = Some s" by simp
    show ?thesis
    proof (cases "playing (replayController r)")
      case False
      then show ?thesis by (simp add: processNextEvent_idle)
    next
      case True
      note pl = True
      then have pl': "playing (replayController ?r')" by simp
      have i': "currentIndex (replayController ?r') = currentIndex (replayController r)" by simp
      consider (past) "length (events s) \<le> currentIndex (replayController r)"
        | (mid) "currentIndex (replayController r) + 1 < length (events s)"
        | (last) "currentIndex (replayController r) + 1 = length (events s)"
        by linarith
      then show ?thesis
      proof cases
        case past
        have unf: "\<And>x. session x = Some s \<Longrightarrow> playing (replayController x) \<Longrightarrow>
                 length (events s) \<le> currentIndex (replayController x) \<Longrightarrow>
                 processNextEvent x =
                   (if options_loop x then x\<lparr>replayController := reset (replayController x)\<rparr>
                    else complete x)"
        proof -
          fix x :: SessionReplayer
          assume a: "session x = Some s" "playing (replayController x)"
                    "length (events s) \<le> currentIndex (replayController x)"
          have "processNextEvent (x\<lparr>replayController := reset (replayController x)\<rparr>)
                  = x\<lparr>replayController := reset (replayController x)\<rparr>"
            by (rule processNextEvent_idle) (simp add: reset_def rc_stop_def cancelNextTimer_def)
          then show "processNextEvent x =
                   (if options_loop x then x\<lparr>replayController := reset (replayController x)\<rparr>
                    else complete x)"
            using a by (subst processNextEvent.simps) simp
        qed
        from past have past': "length (events s) \<le> currentIndex (replayController ?r')" by simp
        show ?thesis
          unfolding unf [OF s pl past] unf [OF s' pl' past']
          by (simp add: complete_def rc_complete_def reset_def rc_stop_def cancelNextTimer_def)
      next
        case mid
        show ?thesis
          unfolding processNextEvent_schedule [OF s pl refl mid]
            processNextEvent_schedule [OF s' pl' i' mid]
          by (simp add: scheduleNext_def cancelNextTimer_def)
      next
        case last
        show ?thesis
          unfolding processNextEvent_last [OF s pl refl last]
            processNextEvent_last [OF s' pl' i' last]
          by (simp add: complete_def rc_complete_def reset_def rc_stop_def cancelNextTimer_def
              incrementIndex_def)
      qed
    qed
  qed
qed

text \<open>
  Claim C8. \<open>setSpeed\<close> changes the speed and nothing else: the pending timer keeps the
  delay it was scheduled with, and the playing flag, cursor, clock and deliveries are
  untouched. The pending delivery therefore happens at the same time and delivers the
  same event as without the change, and the delay scheduled after it is computed with
  the new speed as divisor.
\<close>

theorem setSpeed_leaves_pending_timer:
  "nextTimer (replayController (setSpeed v r)) = nextTimer (replayController r)
   \<and> playing (replayController (setSpeed v r)) = playing (replayController r)
   \<and> currentIndex (replayController (setSpeed v r)) = currentIndex (replayController r)
   \<and> clock (setSpeed v r) = clock r
   \<and> delivered (setSpeed v r) = delivered r
   \<and> speed (replayController (setSpeed v r)) = v
   \<and> clock (timerFires (setSpeed v r)) = clock (timerFires r)
   \<and> delivered (timerFires (setSpeed v r)) = delivered (timerFires r)
   \<and> (\<forall>s i d. session r = Some s \<and> playing (replayController r)
          \<and> nextTimer (replayController r) = Some d
          \<and> currentIndex (replayController r) = i \<and> i + 2 < length (events s) \<longrightarrow>
        nextTimer (replayController (timerFires (setSpeed v r))) =
          Some (num_div (num_sub (getTime (timestamp (events s ! (i + 2))))
                                 (getTime (timestamp (events s ! (i + 1))))) v))"
proof -
  have frame: "nextTimer (replayController (setSpeed v r)) = nextTimer (replayController r)
   \<and> playing (replayController (setSpeed v r)) = playing (replayController r)
   \<and> currentIndex (replayController (setSpeed v r)) = currentIndex (replayController r)
   \<and> clock (setSpeed v r) = clock r
   \<and> delivered (setSpeed v r) = delivered r
   \<and> speed (replayController (setSpeed v r)) = v"
    by (simp add: setSpeed_def rc_setSpeed_def)
  have clk: "clock (timerFires (setSpeed v r)) = clock (timerFires r)"
    by (simp add: timerFires_def setSpeed_def rc_setSpeed_def processNextEvent_frame Let_def
        split: option.splits)
  have dl: "delivered (timerFires (setSpeed v r)) = delivered (timerFires r)"
  proof (cases "nextTimer (replayController r)")
    case None
    then show ?thesis by (simp add: timerFires_def setSpeed_def rc_setSpeed_def)
  next
    case (Some d)
    let ?x = "r\<lparr> clock := clock r + timeoutDelay d,
                  replayController := incrementIndex ((replayController r)\<lparr>nextTimer := None\<rparr>) \<rparr>"
    have 1: "timerFires r = processNextEvent ?x"
      using Some by (simp add: timerFires_def Let_def)
    have 2: "timerFires (setSpeed v r) =
               processNextEvent (?x\<lparr>replayController := (replayController ?x)\<lparr>speed := v\<rparr>\<rparr>)"
      using Some by (cases "replayController r")
        (simp add: timerFires_def Let_def setSpeed_def rc_setSpeed_def incrementIndex_def)
    show ?thesis unfolding 1 2 using processNextEvent_speed_independent [where r = ?x and v = v] by blast
  qed
  have nxt: "\<forall>s i d. session r = Some s \<and> playing (replayController r)
          \<and> nextTimer (replayController r) = Some d
          \<and> currentIndex (replayController r) = i \<and> i + 2 < length (events s) \<longrightarrow>
        nextTimer (replayController (timerFires (setSpeed v r))) =
          Some (num_div (num_sub (getTime (timestamp (events s ! (i + 2))))
                                 (getTime (timestamp (events s ! (i + 1))))) v)"
  proof (intro allI impI, elim conjE)
    fix s i d
    assume a: "session r = Some s" "playing (replayController r)"
      "nextTimer (replayController r) = Some d" "currentIndex (replayController r) = i"
      "i + 2 < length (events s)"
    let ?y = "r\<lparr> clock := clock r + timeoutDelay d,
                  replayController :=
                    incrementIndex ((replayController r)\<lparr>speed := v, nextTimer := None\<rparr>) \<rparr>"
    have tf: "timerFires (setSpeed v r) = processNextEvent ?y"
      using a(3) by (cases "replayController r")
        (simp add: timerFires_def Let_def setSpeed_def rc_setSpeed_def incrementIndex_def)
    have ys: "session ?y = Some s" using a(1) by simp
    have yp: "playing (replayController ?y)" using a(2) by (simp add: incrementIndex_def)
    have yi: "currentIndex (replayController ?y) = i + 1" using a(4) by (simp add: incrementIndex_def)
    have yl: "i + 1 + 1 < length (events s)" using a(5) by simp
    show "nextTimer (replayController (timerFires (setSpeed v r))) =
          Some (num_div (num_sub (getTime (timestamp (events s ! (i + 2))))
                                 (getTime (timestamp (events s ! (i + 1))))) v)"
      unfolding tf processNextEvent_schedule [OF ys yp yi yl]
      by (simp add: scheduleNext_def calculateDelay_def incrementIndex_def add.commute)
  qed
  from frame clk dl nxt show ?thesis by blast
qed

theorem setSpeed_leaves_pending_timer_witness:
  "nextTimer (replayController (setSpeed (Num 2)
      (applyOps [LoadSession scenarioSession, Play]
         (newSessionReplayer \<lparr> option_speed = None, option_loop = None \<rparr>)))) = Some (Num 500)
   \<and> nextTimer (replayController (timerFires (setSpeed (Num 2)
      (applyOps [LoadSession scenarioSession, Play]
         (newSessionReplayer \<lparr> option_speed = None, option_loop = None \<rparr>))))) = Some (Num 500)"
proof -
  let ?r = "applyOps [LoadSession scenarioSession, Play]
              (newSessionReplayer \<lparr> option_speed = None, option_loop = None \<rparr>)"
  have h1: "session ?r = Some scenarioSession" by code_simp
  have h2: "playing (replayController ?r)" by code_simp
  have h3: "nextTimer (replayController ?r) = Some (Num 500)" by code_simp
  have h4: "currentIndex (replayController ?r) = 0" by code_simp
  have h5: "0 + 2 < length (events scenarioSession)" by (simp add: scenarioSession_def)
  note t = setSpeed_leaves_pending_timer [of "Num 2" ?r]
  from t h3 have a: "nextTimer (replayController (setSpeed (Num 2) ?r)) = Some (Num 500)"
    by simp
  from t h1 h2 h3 h4 h5
  have "nextTimer (replayController (timerFires (setSpeed (Num 2) ?r))) =
          Some (num_div (num_sub (getTime (timestamp (events scenarioSession ! (0 + 2))))
                                 (getTime (timestamp (events scenarioSession ! (0 + 1))))) (Num 2))"
    by blast
  then have b: "nextTimer (replayController (timerFires (setSpeed (Num 2) ?r))) = Some (Num 500)"
    by (simp add: scenarioSession_def num_sub_def)
  from a b show ?thesis by simp
qed

subsection \<open>Seeking\<close>

lemma findClosestLoop_takeWhile:
  "findClosestLoop target es i index =
     (let k = length (takeWhile (\<lambda>e. num_le (getTime (timestamp e)) target) es)
      in if k = 0 then index else i + k - 1)"
  by (induction es arbitrary: i index) (auto simp: Let_def)

lemma sorted_prefix_length:
  fixes ts :: "int list"
  assumes "sorted ts" and "j < length ts"
  shows "ts ! j \<le> T \<longleftrightarrow> j < length (takeWhile (\<lambda>t. t \<le> T) ts)"
proof
  assume le: "ts ! j \<le> T"
  show "j < length (takeWhile (\<lambda>t. t \<le> T) ts)"
  proof (rule ccontr)
    assume "\<not> j < length (takeWhile (\<lambda>t. t \<le> T) ts)"
    then have k: "length (takeWhile (\<lambda>t. t \<le> T) ts) \<le> j" by simp
    with assms(2) have "length (takeWhile (\<lambda>t. t \<le> T) ts) < length ts" by simp
    then have "\<not> ts ! length (takeWhile (\<lambda>t. t \<le> T) ts) \<le> T"
      by (rule nth_length_takeWhile)
    moreover have "ts ! length (takeWhile (\<lambda>t. t \<le> T) ts) \<le> ts ! j"
      using assms k by (simp add: sorted_nth_mono)
    ultimately show False using le by simp
  qed
next
  assume "j < length (takeWhile (\<lambda>t. t \<le> T) ts)"
  then have "takeWhile (\<lambda>t. t \<le> T) ts ! j \<in> set (takeWhile (\<lambda>t. t \<le> T) ts)"
    and "takeWhile (\<lambda>t. t \<le> T) ts ! j = ts ! j"
    by (rule nth_mem, rule takeWhile_nth)
  then show "ts ! j \<le> T" using set_takeWhileD by fastforce
qed

text \<open>The index found, for events with valid dates in non-decreasing order.\<close>

lemma findClosestLoop_sorted:
  fixes ts :: "int list" and T :: rat
  assumes "map timestamp es = map Date ts" and "sorted ts"
  defines "idx \<equiv> findClosestLoop (Num T) es 0 0"
  shows "(\<exists>j < length es. of_int (ts ! j) \<le> T) \<longrightarrow>
           idx < length es \<and> of_int (ts ! idx) \<le> T
           \<and> (\<forall>j < length es. of_int (ts ! j) \<le> T \<longrightarrow> j \<le> idx)"
    and "\<not> (\<exists>j < length es. of_int (ts ! j) \<le> T) \<longrightarrow> idx = 0"
proof -
  let ?P = "\<lambda>e. num_le (getTime (timestamp e)) (Num T)"
  let ?Q = "\<lambda>t::int. t \<le> \<lfloor>T\<rfloor>"
  have len: "length es = length ts" using assms(1) by (metis length_map)
  have PQ: "?P (es ! j) = ?Q (ts ! j)" if "j < length es" for j
  proof -
    have "timestamp (es ! j) = Date (ts ! j)"
      using assms(1) that len by (metis nth_map)
    then show ?thesis by (simp add: le_floor_iff)
  qed
  have tw: "length (takeWhile ?P es) = length (takeWhile ?Q ts)"
  proof -
    have "takeWhile ?P es = takeWhile (?Q \<circ> (\<lambda>e. case timestamp e of Date t \<Rightarrow> t | InvalidDate \<Rightarrow> 0)) es"
    proof (rule takeWhile_cong[OF refl])
      fix e assume "e \<in> set es"
      then obtain j where j: "j < length es" "es ! j = e" by (auto simp: in_set_conv_nth)
      then have "timestamp e = Date (ts ! j)" using assms(1) len by (metis nth_map)
      then show "?P e = (?Q \<circ> (\<lambda>e. case timestamp e of Date t \<Rightarrow> t | InvalidDate \<Rightarrow> 0)) e"
        by (simp add: le_floor_iff)
    qed
    moreover have "map (\<lambda>e. case timestamp e of Date t \<Rightarrow> t | InvalidDate \<Rightarrow> 0) es = ts"
    proof (rule nth_equalityI)
      show "length (map (\<lambda>e. case timestamp e of Date t \<Rightarrow> t | InvalidDate \<Rightarrow> 0) es) = length ts"
        using len by simp
    next
      fix j assume "j < length (map (\<lambda>e. case timestamp e of Date t \<Rightarrow> t | InvalidDate \<Rightarrow> 0) es)"
      then have j: "j < length es" by simp
      then have "timestamp (es ! j) = Date (ts ! j)" using assms(1) len by (metis nth_map)
      then show "map (\<lambda>e. case timestamp e of Date t \<Rightarrow> t | InvalidDate \<Rightarrow> 0) es ! j = ts ! j"
        using j by simp
    qed
    ultimately show ?thesis
      by (metis length_map takeWhile_map)
  qed
  let ?k = "length (takeWhile ?Q ts)"
  have idx: "idx = (if ?k = 0 then 0 else ?k - 1)"
    unfolding idx_def findClosestLoop_takeWhile tw [symmetric] by (simp add: Let_def)
  have char: "of_int (ts ! j) \<le> T \<longleftrightarrow> j < ?k" if "j < length es" for j
    using sorted_prefix_length [OF assms(2), of j "\<lfloor>T\<rfloor>"] that len by (simp add: le_floor_iff)
  have kl: "?k \<le> length es" using len by (metis length_takeWhile_le)
  show "(\<exists>j < length es. of_int (ts ! j) \<le> T) \<longrightarrow>
           idx < length es \<and> of_int (ts ! idx) \<le> T
           \<and> (\<forall>j < length es. of_int (ts ! j) \<le> T \<longrightarrow> j \<le> idx)"
  proof
    assume "\<exists>j < length es. of_int (ts ! j) \<le> T"
    then obtain j where "j < length es" "j < ?k" using char by blast
    then have k0: "0 < ?k" by linarith
    then have i: "idx = ?k - 1" using idx by (metis less_numeral_extra(3))
    then have il: "idx < length es" and ik: "idx < ?k" using k0 kl by linarith+
    moreover have "of_int (ts ! idx) \<le> T" using char [OF il] ik by simp
    moreover have "\<forall>j < length es. of_int (ts ! j) \<le> T \<longrightarrow> j \<le> idx"
    proof (intro allI impI)
      fix j assume "j < length es" "of_int (ts ! j) \<le> T"
      then have "j < ?k" using char by blast
      then show "j \<le> idx" using i by linarith
    qed
    ultimately show "idx < length es \<and> of_int (ts ! idx) \<le> T
           \<and> (\<forall>j < length es. of_int (ts ! j) \<le> T \<longrightarrow> j \<le> idx)" by blast
  qed
  show "\<not> (\<exists>j < length es. of_int (ts ! j) \<le> T) \<longrightarrow> idx = 0"
  proof
    assume n: "\<not> (\<exists>j < length es. of_int (ts ! j) \<le> T)"
    have "?k = 0"
    proof (rule ccontr)
      assume "?k \<noteq> 0"
      then have "0 < ?k" by (rule neq0_conv [THEN iffD1])
      moreover from this kl have "0 < length es" by linarith
      ultimately show False using char [of 0] n by blast
    qed
    then show "idx = 0" using idx by presburger
  qed
qed

lemma roundHalfEven_of_int: "roundHalfEven (of_int n) = n"
  by (simp add: roundHalfEven_def Let_def)

lemma pow2_nonpos: "pow2 (- int j) = 1 / 2 ^ j"
  by (simp add: pow2_def)

lemma roundDouble_pos_int:
  assumes "0 < n" and "n < 2 ^ 53"
  shows "roundDouble (of_int n) = Num (of_int n)"
proof -
  have b: "2 ^ nat (bitlen n - 1) \<le> n" "n < 2 ^ nat (bitlen n)"
    using bitlen_bounds [OF assms(1)] by simp_all
  have bl1: "1 \<le> bitlen n" using assms(1) bitlen_nonneg [of n] bitlen_eq_zero_iff [of n] by linarith
  have p53: "(2::int) ^ nat (bitlen n - 1) < 2 ^ 53" using b(1) assms(2) by linarith
  have "nat (bitlen n - 1) < 53"
  proof (rule power_less_imp_less_exp)
    show "(1::int) < 2" by simp
    show "(2::int) ^ nat (bitlen n - 1) < 2 ^ 53" by (rule p53)
  qed
  then have bl2: "bitlen n \<le> 53" by linarith
  define j where "j = nat (53 - bitlen n)"
  have e: "max (floorLog2 \<bar>of_int n\<bar> - 52) (- 1074) = - int j"
    using assms(1) bl1 bl2 by (simp add: floorLog2_def j_def)
  have q: "\<bar>of_int n :: rat\<bar> / pow2 (- int j) = of_int (n * 2 ^ j)"
    using assms(1) by (simp add: pow2_nonpos)
  have r: "of_int (roundHalfEven (\<bar>of_int n\<bar> / pow2 (- int j))) * pow2 (- int j) = (of_int n :: rat)"
    unfolding q roundHalfEven_of_int by (simp add: pow2_nonpos)
  have lt: "(of_int n :: rat) < pow2 1024"
  proof -
    have "n < 2 ^ 1024" using assms(2) by (rule less_trans) simp
    then have "(of_int n :: rat) < of_int (2 ^ 1024)" by (simp only: of_int_less_iff)
    then show ?thesis by (simp add: pow2_def)
  qed
  have nz: "(of_int n :: rat) \<noteq> 0" "0 < (of_int n :: rat)" using assms(1) by simp_all
  show ?thesis
    unfolding roundDouble_def Let_def e r using nz lt by simp
qed

lemma roundDouble_neg: "roundDouble (- x) = num_neg (roundDouble x)"
  by (simp add: roundDouble_def Let_def)

lemma roundDouble_int:
  assumes "\<bar>n\<bar> < 2 ^ 53"
  shows "roundDouble (of_int n) = Num (of_int n)"
proof -
  consider (zero) "n = 0" | (pos) "0 < n" | (neg) "n < 0" by linarith
  then show ?thesis
  proof cases
    case zero
    then show ?thesis by (simp add: roundDouble_def)
  next
    case pos
    with assms have "n < 2 ^ 53" by linarith
    with pos show ?thesis by (rule roundDouble_pos_int)
  next
    case neg
    with assms have "0 < - n" "- n < 2 ^ 53" by linarith+
    then have "roundDouble (of_int (- n)) = Num (of_int (- n))" by (rule roundDouble_pos_int)
    then have "num_neg (roundDouble (of_int n)) = Num (- of_int n)"
      using roundDouble_neg [of "of_int n"] by simp
    then show ?thesis by (cases "roundDouble (of_int n)") simp_all
  qed
qed

lemma processNextEvent_past:
  assumes "session r = Some s" and "playing (replayController r)"
      and "length (events s) \<le> currentIndex (replayController r)"
  shows "processNextEvent r =
           (if options_loop r then r\<lparr>replayController := reset (replayController r)\<rparr>
            else complete r)"
proof -
  have "processNextEvent (r\<lparr>replayController := reset (replayController r)\<rparr>)
          = r\<lparr>replayController := reset (replayController r)\<rparr>"
    by (rule processNextEvent_idle) (simp add: reset_def rc_stop_def cancelNextTimer_def)
  then show ?thesis
    using assms by (subst processNextEvent.simps) simp
qed

text \<open>
  Claim C3, as amended. The target of a seek is the sum of the session's start time
  and \<open>timeMs\<close> as double arithmetic gives it. \<open>seekTo\<close> sets the cursor to the last index
  of the longest run of events from the start of the session whose timestamps are at
  most the target, and to 0 when the first event is already later. For events with
  valid dates in non-decreasing order and a finite target this is the highest index
  whose timestamp is at most the target, or 0 when there is none; when the sum is
  exact, as it is for a valid start time and a whole number of milliseconds, it is the
  highest index whose offset from the session start is at most \<open>timeMs\<close>, or 0 when
  there is none. A replayer that was not playing stays paused at that cursor with no
  pending timer. One that was playing runs \<open>play\<close> again from that cursor, which
  delivers the event at the cursor; afterwards it is playing, with the cursor on that
  index, exactly when a later event exists, and otherwise playback has ended.
\<close>

theorem seekTo_cursor_and_play_state:
  assumes "session r = Some s"
  shows "findClosestEventIndex r (double_add (getTime (startTime s)) timeInMs) =
           (let k = length (takeWhile
                      (\<lambda>e. num_le (getTime (timestamp e))
                                   (double_add (getTime (startTime s)) timeInMs))
                      (events s))
            in if k = 0 then 0 else k - 1)
       \<and> (\<forall>ts T. map timestamp (events s) = map Date ts \<and> sorted ts
              \<and> double_add (getTime (startTime s)) timeInMs = Num T \<longrightarrow>
            ((\<exists>j < length (events s). of_int (ts ! j) \<le> T) \<longrightarrow>
               findClosestEventIndex r (Num T) < length (events s)
               \<and> of_int (ts ! findClosestEventIndex r (Num T)) \<le> T
               \<and> (\<forall>j < length (events s). of_int (ts ! j) \<le> T \<longrightarrow>
                     j \<le> findClosestEventIndex r (Num T)))
            \<and> (\<not> (\<exists>j < length (events s). of_int (ts ! j) \<le> T) \<longrightarrow>
                 findClosestEventIndex r (Num T) = 0))
       \<and> (\<forall>ts t0 ms. map timestamp (events s) = map Date ts \<and> sorted ts
              \<and> startTime s = Date t0 \<and> timeInMs = Num (of_int ms) \<and> \<bar>t0 + ms\<bar> < 2 ^ 53 \<longrightarrow>
            double_add (getTime (startTime s)) timeInMs = Num (of_int (t0 + ms))
            \<and> ((\<exists>j < length (events s). ts ! j - t0 \<le> ms) \<longrightarrow>
                 findClosestEventIndex r (Num (of_int (t0 + ms))) < length (events s)
                 \<and> ts ! findClosestEventIndex r (Num (of_int (t0 + ms))) - t0 \<le> ms
                 \<and> (\<forall>j < length (events s). ts ! j - t0 \<le> ms \<longrightarrow>
                       j \<le> findClosestEventIndex r (Num (of_int (t0 + ms)))))
            \<and> (\<not> (\<exists>j < length (events s). ts ! j - t0 \<le> ms) \<longrightarrow>
                 findClosestEventIndex r (Num (of_int (t0 + ms))) = 0))
       \<and> (\<not> playing (replayController r) \<longrightarrow>
            seekTo timeInMs r =
              r\<lparr>replayController := (replayController r)
                   \<lparr> playing := False,
                     currentIndex :=
                       findClosestEventIndex r (double_add (getTime (startTime s)) timeInMs),
                     nextTimer := None \<rparr>\<rparr>)
       \<and> (playing (replayController r) \<longrightarrow>
            seekTo timeInMs r =
              processNextEvent
                (r\<lparr>replayController := (replayController r)
                     \<lparr> playing := True,
                       currentIndex :=
                         findClosestEventIndex r (double_add (getTime (startTime s)) timeInMs),
                       nextTimer := None \<rparr>\<rparr>))
       \<and> (playing (replayController r)
            \<and> findClosestEventIndex r (double_add (getTime (startTime s)) timeInMs)
                < length (events s) \<longrightarrow>
            delivered (seekTo timeInMs r) =
              delivered r @ [(clock r, events s !
                findClosestEventIndex r (double_add (getTime (startTime s)) timeInMs))])
       \<and> (playing (replayController r) \<longrightarrow>
            playing (replayController (seekTo timeInMs r)) =
              (findClosestEventIndex r (double_add (getTime (startTime s)) timeInMs) + 1
                 < length (events s)))
       \<and> (playing (replayController r)
            \<and> findClosestEventIndex r (double_add (getTime (startTime s)) timeInMs) + 1
                < length (events s) \<longrightarrow>
            currentIndex (replayController (seekTo timeInMs r)) =
              findClosestEventIndex r (double_add (getTime (startTime s)) timeInMs))"
proof -
  let ?tgt = "double_add (getTime (startTime s)) timeInMs"
  let ?idx = "findClosestEventIndex r ?tgt"
  let ?n = "length (events s)"
  have fce: "findClosestEventIndex r x = findClosestLoop x (events s) 0 0" for x
    using assms by (simp add: findClosestEventIndex_def)
  have a: "?idx =
           (let k = length (takeWhile (\<lambda>e. num_le (getTime (timestamp e)) ?tgt) (events s))
            in if k = 0 then 0 else k - 1)"
    unfolding fce findClosestLoop_takeWhile by (simp add: Let_def)
  have b: "\<forall>ts T. map timestamp (events s) = map Date ts \<and> sorted ts \<and> ?tgt = Num T \<longrightarrow>
            ((\<exists>j < ?n. of_int (ts ! j) \<le> T) \<longrightarrow>
               findClosestEventIndex r (Num T) < ?n
               \<and> of_int (ts ! findClosestEventIndex r (Num T)) \<le> T
               \<and> (\<forall>j < ?n. of_int (ts ! j) \<le> T \<longrightarrow> j \<le> findClosestEventIndex r (Num T)))
            \<and> (\<not> (\<exists>j < ?n. of_int (ts ! j) \<le> T) \<longrightarrow> findClosestEventIndex r (Num T) = 0)"
  proof (intro allI impI, elim conjE)
    fix ts :: "int list" and T :: rat
    assume h: "map timestamp (events s) = map Date ts" "sorted ts"
    show "((\<exists>j < ?n. of_int (ts ! j) \<le> T) \<longrightarrow>
               findClosestEventIndex r (Num T) < ?n
               \<and> of_int (ts ! findClosestEventIndex r (Num T)) \<le> T
               \<and> (\<forall>j < ?n. of_int (ts ! j) \<le> T \<longrightarrow> j \<le> findClosestEventIndex r (Num T)))
            \<and> (\<not> (\<exists>j < ?n. of_int (ts ! j) \<le> T) \<longrightarrow> findClosestEventIndex r (Num T) = 0)"
      unfolding fce
      using findClosestLoop_sorted(1) [OF h, of T] findClosestLoop_sorted(2) [OF h, of T]
      by blast
  qed
  have c: "\<forall>ts t0 ms. map timestamp (events s) = map Date ts \<and> sorted ts
              \<and> startTime s = Date t0 \<and> timeInMs = Num (of_int ms) \<and> \<bar>t0 + ms\<bar> < 2 ^ 53 \<longrightarrow>
            ?tgt = Num (of_int (t0 + ms))
            \<and> ((\<exists>j < ?n. ts ! j - t0 \<le> ms) \<longrightarrow>
                 findClosestEventIndex r (Num (of_int (t0 + ms))) < ?n
                 \<and> ts ! findClosestEventIndex r (Num (of_int (t0 + ms))) - t0 \<le> ms
                 \<and> (\<forall>j < ?n. ts ! j - t0 \<le> ms \<longrightarrow>
                       j \<le> findClosestEventIndex r (Num (of_int (t0 + ms)))))
            \<and> (\<not> (\<exists>j < ?n. ts ! j - t0 \<le> ms) \<longrightarrow>
                 findClosestEventIndex r (Num (of_int (t0 + ms))) = 0)"
  proof (intro allI impI, elim conjE)
    fix ts :: "int list" and t0 ms :: int
    assume h: "map timestamp (events s) = map Date ts" "sorted ts"
      and st: "startTime s = Date t0" and tm: "timeInMs = Num (of_int ms)"
      and bd: "\<bar>t0 + ms\<bar> < 2 ^ 53"
    have tgt: "?tgt = Num (of_int (t0 + ms))"
      using roundDouble_int [OF bd] by (simp add: st tm)
    have off: "(ts ! j - t0 \<le> ms) = ((of_int (ts ! j) :: rat) \<le> of_int (t0 + ms))" for j
      by (simp only: of_int_le_iff) linarith
    show "?tgt = Num (of_int (t0 + ms))
            \<and> ((\<exists>j < ?n. ts ! j - t0 \<le> ms) \<longrightarrow>
                 findClosestEventIndex r (Num (of_int (t0 + ms))) < ?n
                 \<and> ts ! findClosestEventIndex r (Num (of_int (t0 + ms))) - t0 \<le> ms
                 \<and> (\<forall>j < ?n. ts ! j - t0 \<le> ms \<longrightarrow>
                       j \<le> findClosestEventIndex r (Num (of_int (t0 + ms)))))
            \<and> (\<not> (\<exists>j < ?n. ts ! j - t0 \<le> ms) \<longrightarrow>
                 findClosestEventIndex r (Num (of_int (t0 + ms))) = 0)"
      unfolding off fce
      using tgt findClosestLoop_sorted(1) [OF h, of "of_int (t0 + ms)"]
        findClosestLoop_sorted(2) [OF h, of "of_int (t0 + ms)"]
      by blast
  qed
  let ?stopped = "r\<lparr>replayController := (replayController r)
                   \<lparr> playing := False, currentIndex := ?idx, nextTimer := None \<rparr>\<rparr>"
  let ?resumed = "r\<lparr>replayController := (replayController r)
                   \<lparr> playing := True, currentIndex := ?idx, nextTimer := None \<rparr>\<rparr>"
  have seek: "seekTo timeInMs r = (if playing (replayController r) then play ?stopped else ?stopped)"
    using assms
    by (cases "replayController r")
       (simp add: seekTo_def Let_def stop_def rc_stop_def cancelNextTimer_def setCurrentIndex_def
          findClosestEventIndex_def)
  have pl: "play ?stopped = processNextEvent ?resumed"
    using assms by (cases "replayController r") (simp add: play_def rc_play_def)
  have d: "\<not> playing (replayController r) \<longrightarrow> seekTo timeInMs r = ?stopped"
    using seek by simp
  have e: "playing (replayController r) \<longrightarrow> seekTo timeInMs r = processNextEvent ?resumed"
    using seek pl by simp
  have r1: "session ?resumed = Some s" using assms by simp
  have r2: "playing (replayController ?resumed)" by simp
  have r3: "currentIndex (replayController ?resumed) = ?idx" by simp
  have f: "playing (replayController r) \<and> ?idx < ?n \<longrightarrow>
            delivered (seekTo timeInMs r) = delivered r @ [(clock r, events s ! ?idx)]"
  proof
    assume h: "playing (replayController r) \<and> ?idx < ?n"
    then have 4: "?idx < ?n" by simp
    from h e have "seekTo timeInMs r = processNextEvent ?resumed" by simp
    then show "delivered (seekTo timeInMs r) = delivered r @ [(clock r, events s ! ?idx)]"
      using processNextEvent_delivers [OF r1 r2 r3 4] by simp
  qed
  have after: "playing (replayController (processNextEvent ?resumed)) = (?idx + 1 < ?n)
               \<and> (?idx + 1 < ?n \<longrightarrow>
                    currentIndex (replayController (processNextEvent ?resumed)) = ?idx)"
  proof -
    consider (mid) "?idx + 1 < ?n" | (last) "?idx + 1 = ?n" | (past) "?n \<le> ?idx"
      by linarith
    then show ?thesis
    proof cases
      case mid
      show ?thesis
        unfolding processNextEvent_schedule [OF r1 r2 r3 mid]
        using mid by (simp add: scheduleNext_def cancelNextTimer_def)
    next
      case last
      show ?thesis
        unfolding processNextEvent_last [OF r1 r2 r3 last]
        using last
        by (simp add: complete_def rc_complete_def reset_def rc_stop_def cancelNextTimer_def
            incrementIndex_def)
    next
      case past
      have p: "?n \<le> currentIndex (replayController ?resumed)" using past by simp
      show ?thesis
        unfolding processNextEvent_past [OF r1 r2 p]
        using past
        by (simp add: complete_def rc_complete_def reset_def rc_stop_def cancelNextTimer_def)
    qed
  qed
  have g: "playing (replayController r) \<longrightarrow>
            playing (replayController (seekTo timeInMs r)) = (?idx + 1 < ?n)"
    using e after by simp
  have h: "playing (replayController r) \<and> ?idx + 1 < ?n \<longrightarrow>
            currentIndex (replayController (seekTo timeInMs r)) = ?idx"
    using e after by simp
  from a b c d e f g h show ?thesis by blast
qed

text \<open>
  The claim as stated fails when no event lies at or before the target: in a session
  whose first event is 3 ms after the start, \<open>seekTo(0)\<close> leaves the cursor on index 0,
  an event whose offset is not at most 0.
\<close>

theorem seekTo_before_first_event_counterexample:
  "currentIndex (replayController
     (applyOps
        [LoadSession
           \<lparr> session_id = ''a'', startTime = Date 1700000000000, endTime = Date 1700000000500,
             events = [\<lparr> timestamp = Date 1700000000003, etype = NAVIGATION, data = CustomData ''load'' \<rparr>,
                       \<lparr> timestamp = Date 1700000000500, etype = MOUSE_CLICK, data = CustomData ''click'' \<rparr>] \<rparr>,
         SeekTo (Num 0)]
        (newSessionReplayer \<lparr> option_speed = None, option_loop = None \<rparr>))) = 0
   \<and> \<not> num_le (num_sub (getTime (Date 1700000000003)) (getTime (Date 1700000000000))) (Num 0)"
  by code_simp

text \<open>
  It fails as well through the rounding of the target. In the scenario session, whose
  second event is 500 ms after the start, a seek to \<open>500 - 2^-20\<close> ms gives the double sum
  start + 500, and the cursor goes to index 1, an event whose offset 500 is not at most
  \<open>timeMs\<close>.
\<close>

theorem seekTo_rounded_target_example:
  "currentIndex (replayController
     (applyOps [LoadSession scenarioSession, SeekTo (Num (500 - 1 / 2 ^ 20))]
        (newSessionReplayer \<lparr> option_speed = None, option_loop = None \<rparr>))) = 1
   \<and> double_add (getTime (Date 1700000000000)) (Num (500 - 1 / 2 ^ 20)) = Num 1700000000500
   \<and> \<not> num_le (num_sub (getTime (Date 1700000000500)) (getTime (Date 1700000000000)))
             (Num (500 - 1 / 2 ^ 20))"
  by code_simp

text \<open>
  It fails for events that are not in order of time: with events 0, 900 and 100 ms
  after the start, a seek to 500 ms stops the search at the second event and leaves the
  cursor on index 0, although the event at index 2 has offset 100.
\<close>

theorem seekTo_unordered_events_example:
  "currentIndex (replayController
     (applyOps
        [LoadSession
           \<lparr> session_id = ''a'', startTime = Date 1700000000000, endTime = Date 1700000000900,
             events = [\<lparr> timestamp = Date 1700000000000, etype = NAVIGATION, data = CustomData ''load'' \<rparr>,
                       \<lparr> timestamp = Date 1700000000900, etype = MOUSE_CLICK, data = CustomData ''click'' \<rparr>,
                       \<lparr> timestamp = Date 1700000000100, etype = MOUSE_MOVE, data = CustomData ''move'' \<rparr>] \<rparr>,
         SeekTo (Num 500)]
        (newSessionReplayer \<lparr> option_speed = None, option_loop = None \<rparr>))) = 0
   \<and> num_le (num_sub (getTime (Date 1700000000100)) (getTime (Date 1700000000000))) (Num 500)"
  by code_simp

text \<open>
  The play state is not always restored: a replayer that is playing the scenario
  session and seeks to 2000 ms, at or after the last event, delivers that event and
  completes; after the seek it is not playing.
\<close>

theorem seekTo_last_event_example:
  "playing (replayController
     (applyOps [LoadSession scenarioSession, Play]
        (newSessionReplayer \<lparr> option_speed = None, option_loop = None \<rparr>)))
   \<and> \<not> playing (replayController
     (applyOps [LoadSession scenarioSession, Play, SeekTo (Num 2000)]
        (newSessionReplayer \<lparr> option_speed = None, option_loop = None \<rparr>)))
   \<and> completions
     (applyOps [LoadSession scenarioSession, Play, SeekTo (Num 2000)]
        (newSessionReplayer \<lparr> option_speed = None, option_loop = None \<rparr>)) = 1"
  by code_simp

theorem seekTo_cursor_and_play_state_witness:
  "currentIndex (replayController (seekTo (Num 600)
      (applyOps [LoadSession scenarioSession]
         (newSessionReplayer \<lparr> option_speed = None, option_loop = None \<rparr>)))) = 1
   \<and> \<not> playing (replayController (seekTo (Num 600)
      (applyOps [LoadSession scenarioSession]
         (newSessionReplayer \<lparr> option_speed = None, option_loop = None \<rparr>))))
   \<and> currentIndex (replayController (seekTo (Num 600)
      (applyOps [LoadSession scenarioSession, Play]
         (newSessionReplayer \<lparr> option_speed = None, option_loop = None \<rparr>)))) = 1
   \<and> playing (replayController (seekTo (Num 600)
      (applyOps [LoadSession scenarioSession, Play]
         (newSessionReplayer \<lparr> option_speed = None, option_loop = None \<rparr>))))
   \<and> double_add (getTime (startTime scenarioSession)) (Num 600) = Num 1700000000600
   \<and> [1700000000000, 1700000000500, 1700000001500] !
        findClosestEventIndex
          (applyOps [LoadSession scenarioSession]
             (newSessionReplayer \<lparr> option_speed = None, option_loop = None \<rparr>))
          (Num 1700000000600) - 1700000000000 \<le> (600 :: int)"
proof -
  let ?p = "applyOps [LoadSession scenarioSession]
              (newSessionReplayer \<lparr> option_speed = None, option_loop = None \<rparr>)"
  let ?q = "applyOps [LoadSession scenarioSession, Play]
              (newSessionReplayer \<lparr> option_speed = None, option_loop = None \<rparr>)"
  let ?ts = "[1700000000000, 1700000000500, 1700000001500] :: int list"
  let ?tgt = "double_add (getTime (startTime scenarioSession)) (Num 600)"
  have sp: "session ?p = Some scenarioSession" by code_simp
  have sq: "session ?q = Some scenarioSession" by code_simp
  have st: "startTime scenarioSession = Date 1700000000000" by (simp add: scenarioSession_def)
  have mt: "map timestamp (events scenarioSession) = map Date ?ts" by (simp add: scenarioSession_def)
  have so: "sorted ?ts" by simp
  have tm: "Num 600 = Num (of_int 600)" by simp
  have bd: "\<bar>1700000000000 + 600 :: int\<bar> < 2 ^ 53" by simp
  have np: "\<not> playing (replayController ?p)" by code_simp
  have pq: "playing (replayController ?q)" by code_simp
  have ip: "findClosestEventIndex ?p ?tgt = 1" by code_simp
  have iq: "findClosestEventIndex ?q ?tgt = 1" by code_simp
  have ln: "length (events scenarioSession) = 3" by (simp add: scenarioSession_def)
  have ex: "\<exists>j < length (events scenarioSession). ?ts ! j - 1700000000000 \<le> (600::int)"
    unfolding ln by (rule exI [of _ 0]) simp
  note P = seekTo_cursor_and_play_state [OF sp, of "Num 600"]
  note Q = seekTo_cursor_and_play_state [OF sq, of "Num 600"]
  from P np have "seekTo (Num 600) ?p =
      ?p\<lparr>replayController := (replayController ?p)
           \<lparr> playing := False, currentIndex := findClosestEventIndex ?p ?tgt,
             nextTimer := None \<rparr>\<rparr>"
    by blast
  then have "currentIndex (replayController (seekTo (Num 600) ?p)) = findClosestEventIndex ?p ?tgt"
    and 2: "\<not> playing (replayController (seekTo (Num 600) ?p))"
    by simp_all
  then have 1: "currentIndex (replayController (seekTo (Num 600) ?p)) = 1"
    by (simp only: ip)
  have lt: "findClosestEventIndex ?q ?tgt + 1 < length (events scenarioSession)"
    unfolding iq ln by simp
  from Q pq lt have "playing (replayController (seekTo (Num 600) ?q))
      \<and> currentIndex (replayController (seekTo (Num 600) ?q)) = findClosestEventIndex ?q ?tgt"
    by blast
  then have 3: "currentIndex (replayController (seekTo (Num 600) ?q)) = 1"
    and 4: "playing (replayController (seekTo (Num 600) ?q))"
    by (simp_all only: iq)
  from P mt so st tm bd ex
  have "?tgt = Num (of_int (1700000000000 + 600))
        \<and> ?ts ! findClosestEventIndex ?p (Num (of_int (1700000000000 + 600))) - 1700000000000
            \<le> (600::int)"
    by blast
  then have 5: "?tgt = Num 1700000000600"
    and 6: "?ts ! findClosestEventIndex ?p (Num 1700000000600) - 1700000000000 \<le> (600::int)"
    by simp_all
  from 1 2 3 4 5 6 show ?thesis by blast
qed

subsection \<open>The throttle gate\<close>







text \<open>
  Two more bursts of three mouse moves within one window that yield no event. In the
  first, capture of mouse moves is disabled and no listener is installed. In the second
  the configured selector \<open>div[\<close> is one the browser rejects: the first signal opens the
  window, the exclusion test throws, and the gate drops the two others.
\<close>

theorem throttle_capture_disabled_example:
  "mouseMoves \<lparr> captureMouseMove = False, throttleMouseMove = 50 \<rparr>
     \<lparr> excludeElements = [''.no-record'', ''[data-private]''], throttleTimers = Map.empty \<rparr>
     [(0, \<lparr> clientX = 40, clientY = 40, mouse_event_target = None \<rparr>),
      (10, \<lparr> clientX = 41, clientY = 40, mouse_event_target = None \<rparr>),
      (20, \<lparr> clientX = 42, clientY = 40, mouse_event_target = None \<rparr>)]
   = []"
  by (simp add: mouseMoves_def)

theorem throttle_invalid_selector_example:
  "mouseMoves \<lparr> captureMouseMove = True, throttleMouseMove = 50 \<rparr>
     \<lparr> excludeElements = [''div[''], throttleTimers = Map.empty \<rparr>
     [(0, \<lparr> clientX = 40, clientY = 40,
            mouse_event_target = Some \<lparr> tagName = ''P'', element_id = ''text'', className = '''',
              inputType = '''', cssPath = ''p#text'', matchedSelectors = [],
              rejectedSelectors = [''div[''] \<rparr> \<rparr>),
      (10, \<lparr> clientX = 41, clientY = 40,
             mouse_event_target = Some \<lparr> tagName = ''P'', element_id = ''text'', className = '''',
               inputType = '''', cssPath = ''p#text'', matchedSelectors = [],
               rejectedSelectors = [''div[''] \<rparr> \<rparr>),
      (20, \<lparr> clientX = 42, clientY = 40,
             mouse_event_target = Some \<lparr> tagName = ''P'', element_id = ''text'', className = '''',
               inputType = '''', cssPath = ''p#text'', matchedSelectors = [],
               rejectedSelectors = [''div[''] \<rparr> \<rparr>)]
   = []
   \<and> fst (handleMouseMove \<lparr> captureMouseMove = True, throttleMouseMove = 50 \<rparr> 0
        \<lparr> clientX = 40, clientY = 40,
          mouse_event_target = Some \<lparr> tagName = ''P'', element_id = ''text'', className = '''',
            inputType = '''', cssPath = ''p#text'', matchedSelectors = [],
            rejectedSelectors = [''div[''] \<rparr> \<rparr>
        \<lparr> excludeElements = [''div[''], throttleTimers = Map.empty \<rparr>)
     = Inl SyntaxError"
  by (simp add: mouseMoves_def handleMouseMove_def throttle_def fireThrottleTimers_def
      shouldExcludeElement_def)


subsection \<open>The ISO text of a date reads back as the date\<close>















subsection \<open>Saving and reloading a session\<close>









end
